theory Spec2Isabelle
  imports Complex_Main
begin

section \<open>The data of compute_derived_state_vars\<close>

text \<open>
  The routine of \<^verbatim>\<open>compute_derived_state_vars.c\<close> works on structures that its caller
  owns and reaches through pointers. A C array of doubles that the routine only indexes
  or hands on to another routine is a function from the index to the value: how far it
  extends is the caller's business. A \<^verbatim>\<open>double\<close> that is stored in one of these structures
  is the real number it stands for: the infinities, NaN and the negative zero are not
  among the stored values, and a comparison of two stored values is exact. The
  counters of type \<^verbatim>\<open>size_t\<close> are natural numbers.
\<close>

type_synonym darray = "nat \<Rightarrow> real"

text \<open>What the routine computes in \<^verbatim>\<open>double\<close> arithmetic (lines 161 to 164) need not be a
  real number: the arithmetic rounds, it overflows to an infinity, and a division by
  zero gives an infinity or no number. \<open>Finite x\<close> is the double that stands for \<open>x\<close>.\<close>

datatype double = Finite real | Plus_infinity | Minus_infinity | Not_a_number

record layer_data_struct =
  moist :: real
  ice :: darray

record cell_data_struct =
  asat :: real
  zwt :: real
  layer :: "nat \<Rightarrow> layer_data_struct"

text \<open>The fields \<^verbatim>\<open>moist\<close> and \<^verbatim>\<open>ice\<close> of the energy structure are \<open>node_moist\<close> and \<open>node_ice\<close>
  here: the layer structure has fields of the same names.\<close>

record energy_bal_struct =
  T :: darray
  node_moist :: darray
  node_ice :: darray
  kappa_node :: darray
  Cs_node :: darray
  fdepth :: darray
  tdepth :: darray

record soil_con_struct =
  AreaFract :: darray
  Zsum_node :: darray
  max_moist_node :: darray
  expt_node :: darray
  bubble_node :: darray
  alpha :: darray
  beta :: darray
  gamma :: darray
  depth :: darray
  max_moist :: darray
  expt :: darray
  bubble :: darray
  dz_node :: darray
  soil_dens_min :: darray
  bulk_dens_min :: darray
  quartz :: darray
  soil_density :: darray
  bulk_density :: darray
  organic :: darray
  frost_fract :: darray
  frost_slope :: real
  dp :: real
  avg_temp :: real
  FS_ACTIVE :: bool

record veg_con_struct =
  Cv :: real
  vegetat_type_num :: nat

record option_struct =
  FULL_ENERGY :: bool
  FROZEN_SOIL :: bool
  QUICK_FLUX :: bool
  IMPLICIT :: bool
  SNOW_BAND :: nat
  Nlayer :: nat
  Nfrost :: nat
  Nnode :: nat

record global_param_struct =
  dt :: real

text \<open>The constants of the header that the routine uses: the extents of its two local
  arrays and the error code of the routines it calls. The header is not part of the
  file, so they are parameters.\<close>

record vic_def =
  MAX_VEG :: nat
  MAX_BANDS :: nat
  MAX_LAYERS :: nat
  MAX_FROST_AREAS :: nat
  ERROR :: int

subsection \<open>The routines that are called\<close>

text \<open>
  Modelled from the spec: the seven routines that \<^verbatim>\<open>compute_derived_state_vars\<close> calls are
  defined in other files. Each is a parameter, a function of exactly the arguments
  that the call passes, in the order of the call; an argument passed by pointer to be
  filled is given with its present content and comes back in the result. For
  \<^verbatim>\<open>estimate_layer_ice_content_quick_flux\<close> these are the layer array, the layer depths,
  the damping depth, the two node temperatures nearest the surface (passed by value),
  the mean annual soil temperature and the retention parameters of the layers (section
  4.7 of the design); for \<^verbatim>\<open>estimate_layer_ice_content\<close> the whole node temperature profile
  and the node depths.
  A row \<^verbatim>\<open>moist[veg][band]\<close> of the local array is passed as a partial function: an entry
  that was never written is \<open>None\<close>.
  The last four fields are the \<^verbatim>\<open>double\<close> arithmetic of lines 161 to 165: the product,
  the quotient, \<^verbatim>\<open>pow\<close> of the C library and the comparison \<^verbatim>\<open>>\<close>. How they round, overflow
  and divide by zero belongs to the machine and the library, so they are parameters
  too, and what is proved below holds for every arithmetic.
\<close>

record vic_routines =
  compute_runoff_and_asat ::
    "soil_con_struct \<Rightarrow> (nat \<rightharpoonup> real) \<Rightarrow> real \<Rightarrow> real \<Rightarrow> real \<times> real"
  wrap_compute_zwt :: "soil_con_struct \<Rightarrow> cell_data_struct \<Rightarrow> cell_data_struct"
  set_node_parameters ::
    "darray \<Rightarrow> darray \<Rightarrow> darray \<Rightarrow> darray \<Rightarrow> darray \<Rightarrow> darray \<Rightarrow> darray \<Rightarrow>
     darray \<Rightarrow> darray \<Rightarrow> darray \<Rightarrow> darray \<Rightarrow> nat \<Rightarrow> nat \<Rightarrow>
     darray \<times> darray \<times> darray \<times> darray \<times> darray \<times> darray \<times> darray"
  distribute_node_moisture_properties ::
    "darray \<Rightarrow> darray \<Rightarrow> darray \<Rightarrow> darray \<Rightarrow> darray \<Rightarrow> darray \<Rightarrow> darray \<Rightarrow>
     darray \<Rightarrow> darray \<Rightarrow> (nat \<rightharpoonup> real) \<Rightarrow> darray \<Rightarrow> darray \<Rightarrow> darray \<Rightarrow>
     darray \<Rightarrow> darray \<Rightarrow> darray \<Rightarrow> darray \<Rightarrow> nat \<Rightarrow> nat \<Rightarrow> bool \<Rightarrow>
     int \<times> darray \<times> darray \<times> darray \<times> darray"
  estimate_layer_ice_content_quick_flux ::
    "(nat \<Rightarrow> layer_data_struct) \<Rightarrow> darray \<Rightarrow> real \<Rightarrow> real \<Rightarrow> real \<Rightarrow> real \<Rightarrow>
     darray \<Rightarrow> darray \<Rightarrow> darray \<Rightarrow> darray \<Rightarrow> real \<Rightarrow> bool \<Rightarrow>
     int \<times> (nat \<Rightarrow> layer_data_struct)"
  estimate_layer_ice_content ::
    "(nat \<Rightarrow> layer_data_struct) \<Rightarrow> darray \<Rightarrow> darray \<Rightarrow> darray \<Rightarrow> darray \<Rightarrow>
     darray \<Rightarrow> darray \<Rightarrow> darray \<Rightarrow> real \<Rightarrow> nat \<Rightarrow> nat \<Rightarrow> bool \<Rightarrow>
     int \<times> (nat \<Rightarrow> layer_data_struct)"
  find_0_degree_fronts ::
    "energy_bal_struct \<Rightarrow> darray \<Rightarrow> darray \<Rightarrow> nat \<Rightarrow> energy_bal_struct"
  double_times :: "double \<Rightarrow> double \<Rightarrow> double"
  double_divide :: "double \<Rightarrow> double \<Rightarrow> double"
  pow :: "double \<Rightarrow> double \<Rightarrow> double"
  double_greater :: "double \<Rightarrow> double \<Rightarrow> bool"

text \<open>The calls made so far are recorded, in order, with the tile they were made for.
  No branch of the model reads the record.\<close>

datatype call =
  Call_compute_runoff_and_asat nat nat
| Call_wrap_compute_zwt nat nat
| Call_set_node_parameters
| Call_distribute_node_moisture_properties nat nat
| Call_estimate_layer_ice_content_quick_flux nat nat
| Call_estimate_layer_ice_content nat nat
| Call_find_0_degree_fronts nat nat

subsection \<open>The state of a run\<close>

text \<open>
  \<open>cell\<close> and \<open>energy\<close> are the two arrays of \<^verbatim>\<open>all_vars\<close>, indexed by vegetation class
  and elevation band. \<open>moist_buf\<close> and \<open>ice_buf\<close> are the local arrays \<^verbatim>\<open>moist\<close> and \<^verbatim>\<open>ice\<close>:
  they are not initialised, so an entry holds a value only once it was written.
\<close>

record vars =
  cell :: "nat \<Rightarrow> nat \<Rightarrow> cell_data_struct"
  energy :: "nat \<Rightarrow> nat \<Rightarrow> energy_bal_struct"
  soil_con :: soil_con_struct
  FIRST_VEG :: bool
  moist_buf :: "nat \<times> nat \<times> nat \<rightharpoonup> real"
  ice_buf :: "nat \<times> nat \<times> nat \<times> nat \<rightharpoonup> real"
  calls :: "call list"

text \<open>The messages of the four calls of \<^verbatim>\<open>log_err\<close>; the one of the time step check
  carries the five numbers that are printed, the last of them the computed bound.\<close>

datatype log_msg =
  Err_node_properties
| Err_time_step real real real real double
| Err_quick_flux
| Err_ice_content

text \<open>A run ends early when \<^verbatim>\<open>log_err\<close> is reached, or, in the model, when a local array is
  indexed outside its extents or read where it was never written (both undefined in
  C). The state reached is kept with the cause.\<close>

datatype failure =
  Exit_failure log_msg
| Out_of_bounds
| Uninitialised_read

type_synonym outcome = "(failure \<times> vars) + vars"

definition final_vars :: "outcome \<Rightarrow> vars" where
  "final_vars r = (case r of Inl (e, s) \<Rightarrow> s | Inr s \<Rightarrow> s)"

definition failure_of :: "outcome \<Rightarrow> failure option" where
  "failure_of r = (case r of Inl (e, s) \<Rightarrow> Some e | Inr s \<Rightarrow> None)"

text \<open>
  Modelled from the spec: the macro \<^verbatim>\<open>log_err\<close> is defined in a header that is not part
  of the file. Section 7 of the design: a property-derivation error "propagates
  immediately, aborting processing of the current cell". The routine returns nothing
  and reports such an error through \<^verbatim>\<open>log_err\<close> alone, so \<^verbatim>\<open>log_err\<close> prints its message and
  ends the run.
\<close>

definition log_err :: "log_msg \<Rightarrow> vars \<Rightarrow> outcome" where
  "log_err m s = Inl (Exit_failure m, s)"

definition upd2 :: "(nat \<Rightarrow> nat \<Rightarrow> 'a) \<Rightarrow> nat \<Rightarrow> nat \<Rightarrow> 'a \<Rightarrow> (nat \<Rightarrow> nat \<Rightarrow> 'a)" where
  "upd2 f v b x = f(v := (f v)(b := x))"

text \<open>A \<^verbatim>\<open>for\<close> loop over the given indices; it stops where its body ends the run.\<close>

fun for_each :: "'i list \<Rightarrow> ('i \<Rightarrow> 's \<Rightarrow> ('e + 's)) \<Rightarrow> 's \<Rightarrow> ('e + 's)" where
  "for_each [] body s = Inr s"
| "for_each (i # is) body s =
     (case body i s of Inl e \<Rightarrow> Inl e | Inr s' \<Rightarrow> for_each is body s')"

subsection \<open>The local arrays\<close>

definition moist_write :: "vic_def \<Rightarrow> nat \<Rightarrow> nat \<Rightarrow> nat \<Rightarrow> real \<Rightarrow> vars \<Rightarrow> outcome" where
  "moist_write c v b l x s =
     (if v < MAX_VEG c \<and> b < MAX_BANDS c \<and> l < MAX_LAYERS c
      then Inr (s\<lparr>moist_buf := (moist_buf s)((v, b, l) \<mapsto> x)\<rparr>)
      else Inl (Out_of_bounds, s))"

definition ice_write ::
  "vic_def \<Rightarrow> nat \<Rightarrow> nat \<Rightarrow> nat \<Rightarrow> nat \<Rightarrow> real \<Rightarrow> vars \<Rightarrow> outcome" where
  "ice_write c v b l f x s =
     (if v < MAX_VEG c \<and> b < MAX_BANDS c \<and> l < MAX_LAYERS c \<and> f < MAX_FROST_AREAS c
      then Inr (s\<lparr>ice_buf := (ice_buf s)((v, b, l, f) \<mapsto> x)\<rparr>)
      else Inl (Out_of_bounds, s))"

definition moist_read ::
  "vic_def \<Rightarrow> nat \<Rightarrow> nat \<Rightarrow> nat \<Rightarrow> vars \<Rightarrow> (failure \<times> vars) + real" where
  "moist_read c v b l s =
     (if v < MAX_VEG c \<and> b < MAX_BANDS c \<and> l < MAX_LAYERS c
      then (case moist_buf s (v, b, l) of
              None \<Rightarrow> Inl (Uninitialised_read, s)
            | Some x \<Rightarrow> Inr x)
      else Inl (Out_of_bounds, s))"

definition ice_read ::
  "vic_def \<Rightarrow> nat \<Rightarrow> nat \<Rightarrow> nat \<Rightarrow> nat \<Rightarrow> vars \<Rightarrow> (failure \<times> vars) + real" where
  "ice_read c v b l f s =
     (if v < MAX_VEG c \<and> b < MAX_BANDS c \<and> l < MAX_LAYERS c \<and> f < MAX_FROST_AREAS c
      then (case ice_buf s (v, b, l, f) of
              None \<Rightarrow> Inl (Uninitialised_read, s)
            | Some x \<Rightarrow> Inr x)
      else Inl (Out_of_bounds, s))"

section \<open>The first pass: derived soil layer variables\<close>

text \<open>Lines 77 to 86: the copy of the layer moistures and ice contents of a tile.\<close>

definition snapshot_layer ::
  "vic_def \<Rightarrow> option_struct \<Rightarrow> nat \<Rightarrow> nat \<Rightarrow> nat \<Rightarrow> vars \<Rightarrow> outcome" where
  "snapshot_layer c opts v b lidx s =
     (case moist_write c v b lidx (moist (layer (cell s v b) lidx)) s of
        Inl e \<Rightarrow> Inl e
      | Inr s' \<Rightarrow>
          for_each [0..<Nfrost opts]
            (\<lambda>frost_area s1.
               ice_write c v b lidx frost_area (ice (layer (cell s1 v b) lidx) frost_area) s1)
            s')"

definition snapshot :: "vic_def \<Rightarrow> option_struct \<Rightarrow> nat \<Rightarrow> nat \<Rightarrow> vars \<Rightarrow> outcome" where
  "snapshot c opts v b s = for_each [0..<Nlayer opts] (snapshot_layer c opts v b) s"

text \<open>Lines 89 to 92: saturated area and water table. The runoff is dropped.\<close>

definition runoff_and_zwt :: "vic_routines \<Rightarrow> nat \<Rightarrow> nat \<Rightarrow> vars \<Rightarrow> vars" where
  "runoff_and_zwt r v b s =
     (case compute_runoff_and_asat r (soil_con s) (\<lambda>l. moist_buf s (v, b, l)) 0
             (asat (cell s v b)) of
        (A, tmp_runoff) \<Rightarrow>
          let s1 = s\<lparr>cell := upd2 (cell s) v b ((cell s v b)\<lparr>asat := A\<rparr>),
                     calls := calls s @ [Call_compute_runoff_and_asat v b]\<rparr>
          in s1\<lparr>cell := upd2 (cell s1) v b (wrap_compute_zwt r (soil_con s1) (cell s1 v b)),
                calls := calls s1 @ [Call_wrap_compute_zwt v b]\<rparr>)"

definition pass1_tile ::
  "vic_routines \<Rightarrow> vic_def \<Rightarrow> option_struct \<Rightarrow> nat \<Rightarrow> nat \<Rightarrow> vars \<Rightarrow> outcome" where
  "pass1_tile r c opts v b s =
     (case snapshot c opts v b s of
        Inl e \<Rightarrow> Inl e
      | Inr s' \<Rightarrow> Inr (runoff_and_zwt r v b s'))"

text \<open>Lines 68 to 96.\<close>

definition pass1 ::
  "vic_routines \<Rightarrow> vic_def \<Rightarrow> option_struct \<Rightarrow> (nat \<Rightarrow> veg_con_struct) \<Rightarrow> vars \<Rightarrow> outcome"
  where
  "pass1 r c opts veg_con s =
     for_each [0..<Suc (vegetat_type_num (veg_con 0))]
       (\<lambda>veg s1.
          if Cv (veg_con veg) > 0
          then for_each [0..<SNOW_BAND opts]
                 (\<lambda>band s2.
                    if AreaFract (soil_con s2) band > 0
                    then pass1_tile r c opts veg band s2
                    else Inr s2)
                 s1
          else Inr s1)
       s"

section \<open>The second pass: soil thermal node properties\<close>

text \<open>Lines 112 to 123: the node parameters are set where the flag still stands. The
  routine fills the seven arrays of its first arguments.\<close>

definition node_parameters_call :: "vic_routines \<Rightarrow> option_struct \<Rightarrow> soil_con_struct \<Rightarrow> soil_con_struct"
  where
  "node_parameters_call r opts sc =
     (case set_node_parameters r
             (Zsum_node sc) (max_moist_node sc) (expt_node sc) (bubble_node sc)
             (alpha sc) (beta sc) (gamma sc)
             (depth sc) (max_moist sc) (expt sc) (bubble sc) (Nnode opts) (Nlayer opts) of
        (Z, mm, ex, bu, al, be, ga) \<Rightarrow>
          sc\<lparr>Zsum_node := Z, max_moist_node := mm, expt_node := ex, bubble_node := bu,
             alpha := al, beta := be, gamma := ga\<rparr>)"

definition node_parameters :: "vic_routines \<Rightarrow> option_struct \<Rightarrow> vars \<Rightarrow> vars" where
  "node_parameters r opts s =
     (if FIRST_VEG s
      then s\<lparr>FIRST_VEG := False,
             soil_con := node_parameters_call r opts (soil_con s),
             calls := calls s @ [Call_set_node_parameters]\<rparr>
      else s)"

text \<open>Lines 126 to 152: moisture, ice, conductivity and heat capacity of the nodes.\<close>

definition node_moisture_call ::
  "vic_routines \<Rightarrow> option_struct \<Rightarrow> nat \<Rightarrow> nat \<Rightarrow> vars \<Rightarrow>
   int \<times> darray \<times> darray \<times> darray \<times> darray" where
  "node_moisture_call r opts v b s =
     distribute_node_moisture_properties r
       (node_moist (energy s v b)) (node_ice (energy s v b))
       (kappa_node (energy s v b)) (Cs_node (energy s v b))
       (Zsum_node (soil_con s)) (T (energy s v b))
       (max_moist_node (soil_con s)) (expt_node (soil_con s)) (bubble_node (soil_con s))
       (\<lambda>l. moist_buf s (v, b, l))
       (depth (soil_con s)) (soil_dens_min (soil_con s)) (bulk_dens_min (soil_con s))
       (quartz (soil_con s)) (soil_density (soil_con s)) (bulk_density (soil_con s))
       (organic (soil_con s)) (Nnode opts) (Nlayer opts) (FS_ACTIVE (soil_con s))"

definition node_moisture_written ::
  "vic_routines \<Rightarrow> option_struct \<Rightarrow> nat \<Rightarrow> nat \<Rightarrow> vars \<Rightarrow> vars" where
  "node_moisture_written r opts v b s =
     (case node_moisture_call r opts v b s of
        (ErrorFlag, m, i, k, cs) \<Rightarrow>
          s\<lparr>energy := upd2 (energy s) v b
               ((energy s v b)\<lparr>node_moist := m, node_ice := i, kappa_node := k,
                  Cs_node := cs\<rparr>),
            calls := calls s @ [Call_distribute_node_moisture_properties v b]\<rparr>)"

definition node_moisture ::
  "vic_routines \<Rightarrow> vic_def \<Rightarrow> option_struct \<Rightarrow> nat \<Rightarrow> nat \<Rightarrow> vars \<Rightarrow> outcome" where
  "node_moisture r c opts v b s =
     (if FULL_ENERGY opts \<or> FROZEN_SOIL opts
      then (if fst (node_moisture_call r opts v b s) = ERROR c
            then log_err Err_node_properties (node_moisture_written r opts v b s)
            else Inr (node_moisture_written r opts v b s))
      else Inr s)"

text \<open>Lines 158 to 183: node spacing against time step.\<close>

definition dt_thresh :: "vic_routines \<Rightarrow> nat \<Rightarrow> nat \<Rightarrow> vars \<Rightarrow> double" where
  "dt_thresh r v b s =
     double_times r
       (double_divide r
          (double_times r (Finite 0.5) (Finite (Cs_node (energy s v b) 1)))
          (Finite (kappa_node (energy s v b) 1)))
       (pow r (Finite (dz_node (soil_con s) 1)) (Finite 2))"

definition time_step_check ::
  "vic_routines \<Rightarrow> global_param_struct \<Rightarrow> option_struct \<Rightarrow> nat \<Rightarrow> nat \<Rightarrow> vars \<Rightarrow> outcome"
  where
  "time_step_check r gp opts v b s =
     (if (FROZEN_SOIL opts \<and> \<not> QUICK_FLUX opts) \<and> \<not> IMPLICIT opts
      then (if double_greater r (Finite (dt gp)) (dt_thresh r v b s)
            then log_err
                   (Err_time_step (dt gp) (dz_node (soil_con s) 1)
                      (Cs_node (energy s v b) 1) (kappa_node (energy s v b) 1)
                      (dt_thresh r v b s))
                   s
            else Inr s)
      else Inr s)"

text \<open>Lines 186 to 195: the layer moistures and ice contents are set from the local
  arrays.\<close>

definition set_layer_moist :: "nat \<Rightarrow> nat \<Rightarrow> nat \<Rightarrow> real \<Rightarrow> vars \<Rightarrow> vars" where
  "set_layer_moist v b lidx x s =
     s\<lparr>cell := upd2 (cell s) v b
          ((cell s v b)\<lparr>layer := (layer (cell s v b))
             (lidx := (layer (cell s v b) lidx)\<lparr>moist := x\<rparr>)\<rparr>)\<rparr>"

definition set_layer_ice :: "nat \<Rightarrow> nat \<Rightarrow> nat \<Rightarrow> nat \<Rightarrow> real \<Rightarrow> vars \<Rightarrow> vars" where
  "set_layer_ice v b lidx frost_area x s =
     s\<lparr>cell := upd2 (cell s) v b
          ((cell s v b)\<lparr>layer := (layer (cell s v b))
             (lidx := (layer (cell s v b) lidx)
                \<lparr>ice := (ice (layer (cell s v b) lidx))(frost_area := x)\<rparr>)\<rparr>)\<rparr>"

definition restore_layer ::
  "vic_def \<Rightarrow> option_struct \<Rightarrow> nat \<Rightarrow> nat \<Rightarrow> nat \<Rightarrow> vars \<Rightarrow> outcome" where
  "restore_layer c opts v b lidx s =
     (case moist_read c v b lidx s of
        Inl e \<Rightarrow> Inl e
      | Inr x \<Rightarrow>
          for_each [0..<Nfrost opts]
            (\<lambda>frost_area s1.
               case ice_read c v b lidx frost_area s1 of
                 Inl e \<Rightarrow> Inl e
               | Inr y \<Rightarrow> Inr (set_layer_ice v b lidx frost_area y s1))
            (set_layer_moist v b lidx x s))"

definition restore :: "vic_def \<Rightarrow> option_struct \<Rightarrow> nat \<Rightarrow> nat \<Rightarrow> vars \<Rightarrow> outcome" where
  "restore c opts v b s = for_each [0..<Nlayer opts] (restore_layer c opts v b) s"

text \<open>Lines 196 to 230: the ice content of the layers, by one of two routines.\<close>

definition ice_content_call ::
  "vic_routines \<Rightarrow> option_struct \<Rightarrow> nat \<Rightarrow> nat \<Rightarrow> vars \<Rightarrow>
   int \<times> (nat \<Rightarrow> layer_data_struct)" where
  "ice_content_call r opts v b s =
     (if QUICK_FLUX opts
      then estimate_layer_ice_content_quick_flux r
             (layer (cell s v b)) (depth (soil_con s)) (dp (soil_con s))
             (T (energy s v b) 0) (T (energy s v b) 1)
             (avg_temp (soil_con s)) (max_moist (soil_con s)) (expt (soil_con s))
             (bubble (soil_con s)) (frost_fract (soil_con s)) (frost_slope (soil_con s))
             (FS_ACTIVE (soil_con s))
      else estimate_layer_ice_content r
             (layer (cell s v b)) (Zsum_node (soil_con s)) (T (energy s v b))
             (depth (soil_con s)) (max_moist (soil_con s)) (expt (soil_con s))
             (bubble (soil_con s)) (frost_fract (soil_con s)) (frost_slope (soil_con s))
             (Nnode opts) (Nlayer opts) (FS_ACTIVE (soil_con s)))"

definition ice_content_written ::
  "vic_routines \<Rightarrow> option_struct \<Rightarrow> nat \<Rightarrow> nat \<Rightarrow> vars \<Rightarrow> vars" where
  "ice_content_written r opts v b s =
     s\<lparr>cell := upd2 (cell s) v b
          ((cell s v b)\<lparr>layer := snd (ice_content_call r opts v b s)\<rparr>),
       calls := calls s @
          [if QUICK_FLUX opts then Call_estimate_layer_ice_content_quick_flux v b
           else Call_estimate_layer_ice_content v b]\<rparr>"

definition ice_content ::
  "vic_routines \<Rightarrow> vic_def \<Rightarrow> option_struct \<Rightarrow> nat \<Rightarrow> nat \<Rightarrow> vars \<Rightarrow> outcome" where
  "ice_content r c opts v b s =
     (if fst (ice_content_call r opts v b s) = ERROR c
      then log_err (if QUICK_FLUX opts then Err_quick_flux else Err_ice_content)
             (ice_content_written r opts v b s)
      else Inr (ice_content_written r opts v b s))"

text \<open>Lines 233 to 238: freezing and thawing front depths.\<close>

definition fronts :: "vic_routines \<Rightarrow> option_struct \<Rightarrow> nat \<Rightarrow> nat \<Rightarrow> vars \<Rightarrow> vars" where
  "fronts r opts v b s =
     (if \<not> QUICK_FLUX opts \<and> FS_ACTIVE (soil_con s)
      then s\<lparr>energy := upd2 (energy s) v b
                (find_0_degree_fronts r (energy s v b) (Zsum_node (soil_con s))
                   (T (energy s v b)) (Nnode opts)),
             calls := calls s @ [Call_find_0_degree_fronts v b]\<rparr>
      else s)"

text \<open>Lines 111 to 195 of a tile: all that comes before the ice content routine.\<close>

definition pass2_tile_start ::
  "vic_routines \<Rightarrow> vic_def \<Rightarrow> global_param_struct \<Rightarrow> option_struct \<Rightarrow> nat \<Rightarrow> nat \<Rightarrow>
   vars \<Rightarrow> outcome" where
  "pass2_tile_start r c gp opts v b s =
     (case node_moisture r c opts v b (node_parameters r opts s) of
        Inl e \<Rightarrow> Inl e
      | Inr s1 \<Rightarrow>
          (case time_step_check r gp opts v b s1 of
             Inl e \<Rightarrow> Inl e
           | Inr s2 \<Rightarrow> restore c opts v b s2))"

text \<open>Lines 111 to 239: the body of the two loops of the second pass.\<close>

definition pass2_tile ::
  "vic_routines \<Rightarrow> vic_def \<Rightarrow> global_param_struct \<Rightarrow> option_struct \<Rightarrow> nat \<Rightarrow> nat \<Rightarrow>
   vars \<Rightarrow> outcome" where
  "pass2_tile r c gp opts v b s =
     (case pass2_tile_start r c gp opts v b s of
        Inl e \<Rightarrow> Inl e
      | Inr s3 \<Rightarrow>
          (case ice_content r c opts v b s3 of
             Inl e \<Rightarrow> Inl e
           | Inr s4 \<Rightarrow> Inr (fronts r opts v b s4)))"

text \<open>Lines 102 to 242.\<close>

definition pass2 ::
  "vic_routines \<Rightarrow> vic_def \<Rightarrow> global_param_struct \<Rightarrow> option_struct \<Rightarrow>
   (nat \<Rightarrow> veg_con_struct) \<Rightarrow> vars \<Rightarrow> outcome" where
  "pass2 r c gp opts veg_con s =
     for_each [0..<Suc (vegetat_type_num (veg_con 0))]
       (\<lambda>veg s1.
          if Cv (veg_con veg) > 0
          then for_each [0..<SNOW_BAND opts]
                 (\<lambda>band s2.
                    if AreaFract (soil_con s2) band > 0
                    then pass2_tile r c gp opts veg band s2
                    else Inr s2)
                 s1
          else Inr s1)
       (s\<lparr>FIRST_VEG := True\<rparr>)"

section \<open>The routine\<close>

text \<open>On entry the local arrays hold nothing and no call was made. \<^verbatim>\<open>FIRST_VEG\<close> has
  no value before line 102 and is not read before; it is \<open>False\<close> till then.\<close>

definition entry_vars ::
  "(nat \<Rightarrow> nat \<Rightarrow> cell_data_struct) \<Rightarrow> (nat \<Rightarrow> nat \<Rightarrow> energy_bal_struct) \<Rightarrow>
   soil_con_struct \<Rightarrow> vars" where
  "entry_vars cell0 energy0 soil_con0 =
     \<lparr>cell = cell0, energy = energy0, soil_con = soil_con0, FIRST_VEG = False,
      moist_buf = Map.empty, ice_buf = Map.empty, calls = []\<rparr>"

definition compute_derived_state_vars ::
  "vic_routines \<Rightarrow> vic_def \<Rightarrow> global_param_struct \<Rightarrow> option_struct \<Rightarrow>
   (nat \<Rightarrow> nat \<Rightarrow> cell_data_struct) \<Rightarrow> (nat \<Rightarrow> nat \<Rightarrow> energy_bal_struct) \<Rightarrow>
   soil_con_struct \<Rightarrow> (nat \<Rightarrow> veg_con_struct) \<Rightarrow> outcome" where
  "compute_derived_state_vars r c gp opts cell0 energy0 soil_con0 veg_con =
     (case pass1 r c opts veg_con (entry_vars cell0 energy0 soil_con0) of
        Inl e \<Rightarrow> Inl e
      | Inr s \<Rightarrow> pass2 r c gp opts veg_con s)"

text \<open>The tiles that pass both guards, in the order of the two loops: vegetation class
  first, elevation band second. This is the enumeration of section 4.1 of the design.\<close>

definition selected_tiles ::
  "option_struct \<Rightarrow> (nat \<Rightarrow> veg_con_struct) \<Rightarrow> soil_con_struct \<Rightarrow> (nat \<times> nat) list" where
  "selected_tiles opts veg_con sc =
     concat (map (\<lambda>veg. map (\<lambda>band. (veg, band))
                          (filter (\<lambda>band. Cv (veg_con veg) > 0 \<and> AreaFract sc band > 0)
                             [0..<SNOW_BAND opts]))
               [0..<Suc (vegetat_type_num (veg_con 0))])"

subsection \<open>What a step leaves as it was\<close>

text \<open>\<open>buffers_only v b s s'\<close>: from \<open>s\<close> to \<open>s'\<close> nothing changed but the rows of tile
  \<open>(v, b)\<close> in the two local arrays.\<close>

definition buffers_only :: "nat \<Rightarrow> nat \<Rightarrow> vars \<Rightarrow> vars \<Rightarrow> bool" where
  "buffers_only v b s s' \<longleftrightarrow>
     cell s' = cell s \<and> energy s' = energy s \<and> soil_con s' = soil_con s \<and>
     FIRST_VEG s' = FIRST_VEG s \<and> calls s' = calls s \<and>
     (\<forall>v' b' l. (v', b') \<noteq> (v, b) \<longrightarrow> moist_buf s' (v', b', l) = moist_buf s (v', b', l)) \<and>
     (\<forall>v' b' l f. (v', b') \<noteq> (v, b) \<longrightarrow> ice_buf s' (v', b', l, f) = ice_buf s (v', b', l, f))"

text \<open>\<open>tile_only v b s s'\<close>: from \<open>s\<close> to \<open>s'\<close> no other tile than \<open>(v, b)\<close> changed, nor its
  rows in the local arrays.\<close>

definition tile_only :: "nat \<Rightarrow> nat \<Rightarrow> vars \<Rightarrow> vars \<Rightarrow> bool" where
  "tile_only v b s s' \<longleftrightarrow>
     (\<forall>v' b'. (v', b') \<noteq> (v, b) \<longrightarrow>
        cell s' v' b' = cell s v' b' \<and> energy s' v' b' = energy s v' b' \<and>
        (\<forall>l. moist_buf s' (v', b', l) = moist_buf s (v', b', l)) \<and>
        (\<forall>l f. ice_buf s' (v', b', l, f) = ice_buf s (v', b', l, f)))"

text \<open>\<open>calls_ext s s'\<close>: from \<open>s\<close> to \<open>s'\<close> calls were made, none of them of
  \<^verbatim>\<open>set_node_parameters\<close>.\<close>

definition calls_ext :: "vars \<Rightarrow> vars \<Rightarrow> bool" where
  "calls_ext s s' \<longleftrightarrow>
     take (length (calls s)) (calls s') = calls s \<and>
     Call_set_node_parameters \<notin> set (drop (length (calls s)) (calls s'))"

text \<open>\<open>pass2_only v b s s'\<close>: from \<open>s\<close> to \<open>s'\<close> only tile \<open>(v, b)\<close> changed, and calls were
  made, none of them of \<^verbatim>\<open>set_node_parameters\<close>.\<close>

definition pass2_only :: "nat \<Rightarrow> nat \<Rightarrow> vars \<Rightarrow> vars \<Rightarrow> bool" where
  "pass2_only v b s s' \<longleftrightarrow>
     tile_only v b s s' \<and> moist_buf s' = moist_buf s \<and> ice_buf s' = ice_buf s \<and>
     soil_con s' = soil_con s \<and> FIRST_VEG s' = FIRST_VEG s \<and> calls_ext s s'"

text \<open>\<open>filled opts v b s\<close>: the rows of tile \<open>(v, b)\<close> in the local arrays were written, as
  far as the layers and frost areas go.\<close>

definition filled :: "option_struct \<Rightarrow> nat \<Rightarrow> nat \<Rightarrow> vars \<Rightarrow> bool" where
  "filled opts v b s \<longleftrightarrow>
     (\<forall>l<Nlayer opts. moist_buf s (v, b, l) \<noteq> None \<and>
        (\<forall>f<Nfrost opts. ice_buf s (v, b, l, f) \<noteq> None))"

text \<open>\<open>in_extents c opts v b\<close>: the indices of tile \<open>(v, b)\<close>, of every layer and of every
  frost area are inside the extents of the local arrays.\<close>

definition in_extents :: "vic_def \<Rightarrow> option_struct \<Rightarrow> nat \<Rightarrow> nat \<Rightarrow> bool" where
  "in_extents c opts v b \<longleftrightarrow>
     v < MAX_VEG c \<and> b < MAX_BANDS c \<and> Nlayer opts \<le> MAX_LAYERS c \<and>
     Nfrost opts \<le> MAX_FROST_AREAS c"

text \<open>\<open>row_kept v b s s'\<close>: tile \<open>(v, b)\<close> and its rows in the local arrays are in \<open>s'\<close> as
  they are in \<open>s\<close>.\<close>

definition row_kept :: "nat \<Rightarrow> nat \<Rightarrow> vars \<Rightarrow> vars \<Rightarrow> bool" where
  "row_kept v b s s' \<longleftrightarrow>
     cell s' v b = cell s v b \<and> energy s' v b = energy s v b \<and>
     (\<forall>l. moist_buf s' (v, b, l) = moist_buf s (v, b, l)) \<and>
     (\<forall>l f. ice_buf s' (v, b, l, f) = ice_buf s (v, b, l, f))"

text \<open>The enumeration of section 4.1 of the design in its own words: the pairs of a
  vegetation index up to the number of vegetation types and a band index below the
  number of bands whose weight, cover fraction times band area fraction, is strictly
  positive; vegetation index major, band index minor.\<close>

definition tiles_by_weight ::
  "option_struct \<Rightarrow> (nat \<Rightarrow> veg_con_struct) \<Rightarrow> soil_con_struct \<Rightarrow> (nat \<times> nat) list" where
  "tiles_by_weight opts veg_con sc =
     [(v, b). v \<leftarrow> [0..<Suc (vegetat_type_num (veg_con 0))], b \<leftarrow> [0..<SNOW_BAND opts],
              0 < Cv (veg_con v) * AreaFract sc b]"

section \<open>A grid cell with two tiles\<close>

text \<open>
  A cell for trying the statements below: vegetation class 0 covers the cell, the
  bare soil class 1 covers nothing, and each of the two elevation bands holds half
  of the area, so the tiles are \<open>(0, 0)\<close> and \<open>(0, 1)\<close>. There are two layers, one frost
  area and three nodes. The routines called are simple ones: the water table routine
  also clears the layers it is given, so that the layers differ from the local arrays
  after the first pass; \<open>flag\<close> is what \<^verbatim>\<open>distribute_node_moisture_properties\<close> and the
  two ice content routines return, and the first writes a heat capacity of 2 and a
  conductivity of 1. The quick-flux routine freezes the moisture of a layer when the
  two temperatures it is given add up to less than zero, the other ice content
  routine when the temperature of the third node is below zero.
\<close>

text \<open>The arithmetic of the example is exact on finite numbers, as that of doubles is on
  the numbers of the example (small integers, halves, eighths and their products),
  and divides by zero as IEEE 754 has it; \<open>ex_pow\<close> knows the square only.\<close>

definition ex_times :: "double \<Rightarrow> double \<Rightarrow> double" where
  "ex_times x y =
     (case x of
        Finite a \<Rightarrow> (case y of Finite b \<Rightarrow> Finite (a * b) | _ \<Rightarrow> Not_a_number)
      | _ \<Rightarrow> Not_a_number)"

definition ex_divide :: "double \<Rightarrow> double \<Rightarrow> double" where
  "ex_divide x y =
     (case x of
        Finite a \<Rightarrow>
          (case y of
             Finite b \<Rightarrow>
               (if b = 0
                then (if a = 0 then Not_a_number
                      else if 0 < a then Plus_infinity else Minus_infinity)
                else Finite (a / b))
           | _ \<Rightarrow> Not_a_number)
      | _ \<Rightarrow> Not_a_number)"

definition ex_pow :: "double \<Rightarrow> double \<Rightarrow> double" where
  "ex_pow x y =
     (case x of
        Finite a \<Rightarrow>
          (case y of Finite b \<Rightarrow> (if b = 2 then Finite (a * a) else Not_a_number)
           | _ \<Rightarrow> Not_a_number)
      | _ \<Rightarrow> Not_a_number)"

definition ex_greater :: "double \<Rightarrow> double \<Rightarrow> bool" where
  "ex_greater x y =
     (case x of
        Finite a \<Rightarrow> (case y of Finite b \<Rightarrow> b < a | Minus_infinity \<Rightarrow> True | _ \<Rightarrow> False)
      | Plus_infinity \<Rightarrow> (case y of Finite b \<Rightarrow> True | Minus_infinity \<Rightarrow> True | _ \<Rightarrow> False)
      | _ \<Rightarrow> False)"

definition ex_def :: vic_def where
  "ex_def = \<lparr>MAX_VEG = 2, MAX_BANDS = 2, MAX_LAYERS = 2, MAX_FROST_AREAS = 1, ERROR = - 999\<rparr>"

definition ex_opts :: "bool \<Rightarrow> option_struct" where
  "ex_opts qf =
     \<lparr>FULL_ENERGY = False, FROZEN_SOIL = True, QUICK_FLUX = qf, IMPLICIT = False,
      SNOW_BAND = 2, Nlayer = 2, Nfrost = 1, Nnode = 3\<rparr>"

definition ex_veg_con :: "nat \<Rightarrow> veg_con_struct" where
  "ex_veg_con v = \<lparr>Cv = (if v = 0 then 1 else 0), vegetat_type_num = 1\<rparr>"

definition ex_soil_con :: soil_con_struct where
  "ex_soil_con =
     \<lparr>AreaFract = (\<lambda>b. 1 / 2), Zsum_node = (\<lambda>n. 0), max_moist_node = (\<lambda>n. 0),
      expt_node = (\<lambda>n. 0), bubble_node = (\<lambda>n. 0), alpha = (\<lambda>n. 0), beta = (\<lambda>n. 0),
      gamma = (\<lambda>n. 0), depth = (\<lambda>l. 1), max_moist = (\<lambda>l. 10), expt = (\<lambda>l. 4),
      bubble = (\<lambda>l. 1), dz_node = (\<lambda>n. 1 / 8), soil_dens_min = (\<lambda>l. 1),
      bulk_dens_min = (\<lambda>l. 1), quartz = (\<lambda>l. 0), soil_density = (\<lambda>l. 1),
      bulk_density = (\<lambda>l. 1), organic = (\<lambda>l. 0), frost_fract = (\<lambda>f. 1),
      frost_slope = 0, dp = 4, avg_temp = 0, FS_ACTIVE = True\<rparr>"

definition ex_cell :: "nat \<Rightarrow> nat \<Rightarrow> cell_data_struct" where
  "ex_cell v b = \<lparr>asat = 0, zwt = 0, layer = (\<lambda>l. \<lparr>moist = 3, ice = (\<lambda>f. 1)\<rparr>)\<rparr>"

definition ex_energy :: "nat \<Rightarrow> nat \<Rightarrow> energy_bal_struct" where
  "ex_energy v b =
     \<lparr>T = (\<lambda>n. 0), node_moist = (\<lambda>n. 0), node_ice = (\<lambda>n. 0), kappa_node = (\<lambda>n. 0),
      Cs_node = (\<lambda>n. 0), fdepth = (\<lambda>n. 0), tdepth = (\<lambda>n. 0)\<rparr>"

definition ex_routines :: "int \<Rightarrow> vic_routines" where
  "ex_routines flag =
     \<lparr>compute_runoff_and_asat = (\<lambda>sc row inflow A. (1, 0)),
      wrap_compute_zwt =
        (\<lambda>sc cd. cd\<lparr>zwt := 5, layer := (\<lambda>l. \<lparr>moist = 0, ice = (\<lambda>f. 0)\<rparr>)\<rparr>),
      set_node_parameters =
        (\<lambda>Z mm ex bu al be ga d m e bb nn nl. ((\<lambda>n. 1), mm, ex, bu, al, be, ga)),
      distribute_node_moisture_properties =
        (\<lambda>m i k cs Z Tn mm ex bu row d sdm bdm q sd bd org nn nl fs.
           (flag, (\<lambda>n. 7), (\<lambda>n. 0), (\<lambda>n. 1), (\<lambda>n. 2))),
      estimate_layer_ice_content_quick_flux =
        (\<lambda>lay d dp0 T0 T1 avg mm ex bu ff fs act.
           (flag, (\<lambda>l. (lay l)\<lparr>ice := (\<lambda>f. if T0 + T1 < 0 then moist (lay l) else 0)\<rparr>))),
      estimate_layer_ice_content =
        (\<lambda>lay Z Tn d mm ex bu ff fs nn nl act.
           (flag, (\<lambda>l. (lay l)\<lparr>ice := (\<lambda>f. if Tn 2 < 0 then moist (lay l) else 0)\<rparr>))),
      find_0_degree_fronts = (\<lambda>e Z Tn nn. e\<lparr>fdepth := (\<lambda>n. 9)\<rparr>),
      double_times = ex_times, double_divide = ex_divide, pow = ex_pow,
      double_greater = ex_greater\<rparr>"

definition ex_run :: "int \<Rightarrow> bool \<Rightarrow> real \<Rightarrow> outcome" where
  "ex_run flag qf step =
     compute_derived_state_vars (ex_routines flag) ex_def \<lparr>dt = step\<rparr> (ex_opts qf)
       ex_cell ex_energy ex_soil_con ex_veg_con"

text \<open>The cell with two tiles after its first pass, and its tile \<open>(0, 0)\<close> just before the
  ice content routine is called for it in the second pass.\<close>

definition ex_after_pass1 :: vars where
  "ex_after_pass1 =
     final_vars (pass1 (ex_routines 0) ex_def (ex_opts False) ex_veg_con
       (entry_vars ex_cell ex_energy ex_soil_con))"

definition ex_before_ice :: vars where
  "ex_before_ice =
     final_vars (pass2_tile_start (ex_routines 0) ex_def \<lparr>dt = 1 / 128\<rparr> (ex_opts False) 0 0
       (ex_after_pass1\<lparr>FIRST_VEG := True\<rparr>))"

text \<open>Whether a run ended with the message of the time step check.\<close>

fun is_time_step_failure :: "failure option \<Rightarrow> bool" where
  "is_time_step_failure (Some (Exit_failure (Err_time_step a b c d e))) = True"
| "is_time_step_failure _ = False"

text \<open>The energy structures of the cell with two tiles, with the nodes from the third on
  ten degrees below zero.\<close>

definition ex_energy_cold :: "nat \<Rightarrow> nat \<Rightarrow> energy_bal_struct" where
  "ex_energy_cold v b = (ex_energy v b)\<lparr>T := (\<lambda>n. if n < 2 then 0 else - 10)\<rparr>"

text \<open>The tiles for which \<^verbatim>\<open>compute_runoff_and_asat\<close> was called, in the order of the calls,
  and those for which one of the two ice content routines was called: the tiles that
  the first and the second pass got to.\<close>

definition runoff_tiles :: "call list \<Rightarrow> (nat \<times> nat) list" where
  "runoff_tiles cs =
     concat (map (\<lambda>x. case x of Call_compute_runoff_and_asat v b \<Rightarrow> [(v, b)] | _ \<Rightarrow> []) cs)"

definition ice_content_tiles :: "call list \<Rightarrow> (nat \<times> nat) list" where
  "ice_content_tiles cs =
     concat (map (\<lambda>x. case x of
                         Call_estimate_layer_ice_content_quick_flux v b \<Rightarrow> [(v, b)]
                       | Call_estimate_layer_ice_content v b \<Rightarrow> [(v, b)]
                       | _ \<Rightarrow> []) cs)"

text \<open>A cell of one vegetation class and two bands, with a cover fraction of -1 and
  band area fractions of -1/2.\<close>

definition ex_veg_con_negative :: "nat \<Rightarrow> veg_con_struct" where
  "ex_veg_con_negative v = \<lparr>Cv = - 1, vegetat_type_num = 0\<rparr>"

definition ex_soil_con_negative :: soil_con_struct where
  "ex_soil_con_negative = ex_soil_con\<lparr>AreaFract := (\<lambda>b. - (1 / 2))\<rparr>"

section \<open>Properties of the loops\<close>

lemma for_each_append:
  "for_each (xs @ ys) body s =
     (case for_each xs body s of Inl e \<Rightarrow> Inl e | Inr s' \<Rightarrow> for_each ys body s')"
  by (induction xs arbitrary: s) (auto split: sum.splits)


lemma for_each_final_invariant:
  fixes body :: "'i \<Rightarrow> vars \<Rightarrow> outcome"
  assumes step: "\<And>i s. i \<in> set xs \<Longrightarrow> P s \<Longrightarrow> P (final_vars (body i s))"
    and init: "P s"
  shows "P (final_vars (for_each xs body s))"
  using assms
proof (induction xs arbitrary: s)
  case Nil
  then show ?case by (simp add: final_vars_def)
next
  case (Cons i xs)
  show ?case
  proof (cases "body i s")
    case (Inl e)
    then have "final_vars (for_each (i # xs) body s) = final_vars (body i s)"
      by simp
    then show ?thesis using Cons.prems by simp
  next
    case (Inr s')
    have "P s'" using Cons.prems(1)[of i s] Cons.prems(2) Inr by (simp add: final_vars_def)
    then have "P (final_vars (for_each xs body s'))"
      using Cons.IH Cons.prems(1) by simp
    then show ?thesis using Inr by simp
  qed
qed


lemma for_each_guard:
  assumes "\<forall>i\<in>set xs. \<forall>j s s'. body i s = Inr s' \<longrightarrow> g j s' = g j s"
  shows "for_each xs (\<lambda>i s. if g i s then body i s else Inr s) s =
         for_each (filter (\<lambda>i. g i s) xs) body s"
  using assms
proof (induction xs arbitrary: s)
  case Nil
  then show ?case by simp
next
  case (Cons i xs)
  have rest: "\<forall>i\<in>set xs. \<forall>j s s'. body i s = Inr s' \<longrightarrow> g j s' = g j s"
    using Cons.prems by simp
  show ?case
  proof (cases "g i s")
    case True
    show ?thesis
    proof (cases "body i s")
      case (Inl e)
      then show ?thesis using True by simp
    next
      case (Inr s')
      have same: "(\<lambda>j. g j s') = (\<lambda>j. g j s)" using Cons.prems Inr by auto
      have "for_each xs (\<lambda>i s. if g i s then body i s else Inr s) s' =
            for_each (filter (\<lambda>i. g i s') xs) body s'"
        using Cons.IH [OF rest] .
      then show ?thesis using True Inr same by simp
    qed
  next
    case False
    have "for_each xs (\<lambda>i s. if g i s then body i s else Inr s) s =
            for_each (filter (\<lambda>i. g i s) xs) body s"
      using Cons.IH [OF rest] .
    then show ?thesis using False by simp
  qed
qed


lemma for_each_map_pair:
  "for_each (map (\<lambda>b. (v, b)) ys) (\<lambda>(v, b). body v b) s = for_each ys (body v) s"
  by (induction ys arbitrary: s) (auto split: sum.splits)


lemma for_each_nested:
  "for_each vs (\<lambda>v s. for_each (bs v) (body v) s) s =
   for_each (concat (map (\<lambda>v. map (\<lambda>b. (v, b)) (bs v)) vs)) (\<lambda>(v, b). body v b) s"
proof (induction vs arbitrary: s)
  case Nil
  then show ?case by simp
next
  case (Cons v vs)
  show ?case
    by (simp add: for_each_append for_each_map_pair Cons.IH split: sum.splits)
qed



lemma for_each_Inr_invariant:
  assumes "\<forall>i\<in>set xs. \<forall>s s'. P s \<longrightarrow> body i s = Inr s' \<longrightarrow> P s'"
    and "P s" and "for_each xs body s = Inr s'"
  shows "P s'"
  using assms
proof (induction xs arbitrary: s)
  case Nil
  then show ?case by simp
next
  case (Cons i xs)
  from Cons.prems(3) obtain s1 where s1: "body i s = Inr s1" "for_each xs body s1 = Inr s'"
    by (cases "body i s") simp_all
  have step: "\<forall>s s'. P s \<longrightarrow> body i s = Inr s' \<longrightarrow> P s'"
    using Cons.prems(1) by (meson list.set_intros(1))
  have rest: "\<forall>i\<in>set xs. \<forall>s s'. P s \<longrightarrow> body i s = Inr s' \<longrightarrow> P s'"
    using Cons.prems(1) by (meson list.set_intros(2))
  have "P s1" using step [rule_format, OF Cons.prems(2) s1(1)] .
  show ?case by (rule Cons.IH [OF rest \<open>P s1\<close> s1(2)])
qed

lemma for_each_Inr_establish:
  assumes "i \<in> set xs"
    and "\<forall>s s'. I s \<longrightarrow> body i s = Inr s' \<longrightarrow> Q s'"
    and "\<forall>j\<in>set xs. \<forall>s s'. I s \<longrightarrow> body j s = Inr s' \<longrightarrow> I s' \<and> (Q s \<longrightarrow> Q s')"
    and "I s" and "for_each xs body s = Inr s'"
  shows "Q s'"
  using assms
proof (induction xs arbitrary: s)
  case Nil
  then show ?case by simp
next
  case (Cons x xs)
  from Cons.prems(5) obtain s1 where s1: "body x s = Inr s1" "for_each xs body s1 = Inr s'"
    by (cases "body x s") simp_all
  have step: "\<forall>s s'. I s \<longrightarrow> body x s = Inr s' \<longrightarrow> I s' \<and> (Q s \<longrightarrow> Q s')"
    using Cons.prems(3) by (meson list.set_intros(1))
  have rest: "\<forall>j\<in>set xs. \<forall>s s'. I s \<longrightarrow> body j s = Inr s' \<longrightarrow> I s' \<and> (Q s \<longrightarrow> Q s')"
    using Cons.prems(3) by (meson list.set_intros(2))
  have I1: "I s1" using step [rule_format, OF Cons.prems(4) s1(1)] by (rule conjunct1)
  show ?case
  proof (cases "i = x")
    case True
    have "body i s = Inr s1" using s1(1) True by simp
    then have Q1: "Q s1" by (rule Cons.prems(2) [rule_format, OF Cons.prems(4)])
    have both: "\<forall>j\<in>set xs. \<forall>s s'. I s \<and> Q s \<longrightarrow> body j s = Inr s' \<longrightarrow> I s' \<and> Q s'"
    proof (intro ballI allI impI)
      fix j t t' assume j: "j \<in> set xs" and t: "I t \<and> Q t" and b: "body j t = Inr t'"
      have "I t" using t by (rule conjunct1)
      then have "I t' \<and> (Q t \<longrightarrow> Q t')" by (rule rest [rule_format, OF j _ b])
      then show "I t' \<and> Q t'" using t by blast
    qed
    have "I s1 \<and> Q s1" using I1 Q1 by (rule conjI)
    then have "I s' \<and> Q s'"
      by (rule for_each_Inr_invariant [where P = "\<lambda>s. I s \<and> Q s", OF both _ s1(2)])
    then show ?thesis by (rule conjunct2)
  next
    case False
    then have "i \<in> set xs" using Cons.prems(1) by simp
    then show ?thesis by (rule Cons.IH [OF _ Cons.prems(2) rest I1 s1(2)])
  qed
qed

text \<open>What the writes and reads of the local arrays leave as it was.\<close>


lemma moist_write_final:
  "final_vars (moist_write c v b l x s) = s \<or>
   final_vars (moist_write c v b l x s) = s\<lparr>moist_buf := (moist_buf s)((v, b, l) \<mapsto> x)\<rparr>"
  by (simp add: moist_write_def final_vars_def)


lemma ice_write_final:
  "final_vars (ice_write c v b l f x s) = s \<or>
   final_vars (ice_write c v b l f x s) = s\<lparr>ice_buf := (ice_buf s)((v, b, l, f) \<mapsto> x)\<rparr>"
  by (simp add: ice_write_def final_vars_def)


lemma buffers_only_refl: "buffers_only v b s s"
  by (simp add: buffers_only_def)


lemma buffers_only_trans:
  "buffers_only v b s s1 \<Longrightarrow> buffers_only v b s1 s2 \<Longrightarrow> buffers_only v b s s2"
  by (simp add: buffers_only_def)


lemma moist_write_buffers_only:
  "buffers_only v b s (final_vars (moist_write c v b l x s))"
  by (simp add: moist_write_def final_vars_def buffers_only_def)


lemma ice_write_buffers_only:
  "buffers_only v b s (final_vars (ice_write c v b l f x s))"
  by (simp add: ice_write_def final_vars_def buffers_only_def)


lemma final_vars_bind:
  "final_vars (case m of Inl e \<Rightarrow> Inl e | Inr s' \<Rightarrow> k s') =
     (case m of Inl e \<Rightarrow> snd e | Inr s' \<Rightarrow> final_vars (k s'))"
  by (cases m) (simp_all add: final_vars_def split: prod.splits)

section \<open>Properties of the first pass\<close>

lemma ice_write_Inr:
  "ice_write c v b l f x t = Inr t' \<Longrightarrow>
     t' = t\<lparr>ice_buf := (ice_buf t)((v, b, l, f) \<mapsto> x)\<rparr>"
  by (simp add: ice_write_def split: if_splits)

lemma moist_write_Inr:
  "moist_write c v b l x t = Inr t' \<Longrightarrow>
     t' = t\<lparr>moist_buf := (moist_buf t)((v, b, l) \<mapsto> x)\<rparr>"
  by (simp add: moist_write_def split: if_splits)

text \<open>The inner loop of lines 80 to 85.\<close>

lemma snapshot_frost_Inr:
  assumes run: "for_each [0..<Nfrost opts]
            (\<lambda>frost_area s1.
               ice_write c v b l frost_area (ice (layer (cell s1 v b) l) frost_area) s1) t
          = Inr t'"
  shows "cell t' = cell t \<and> moist_buf t' = moist_buf t \<and>
         (\<forall>v' b' l' f. (v', b', l') \<noteq> (v, b, l) \<longrightarrow>
            ice_buf t' (v', b', l', f) = ice_buf t (v', b', l', f))"
    and "f < Nfrost opts \<Longrightarrow> ice_buf t' (v, b, l, f) = Some (ice (layer (cell t v b) l) f)"
proof -
  let ?body = "\<lambda>frost_area s1.
               ice_write c v b l frost_area (ice (layer (cell s1 v b) l) frost_area) s1"
  let ?I = "\<lambda>u. cell u = cell t \<and> moist_buf u = moist_buf t \<and>
         (\<forall>v' b' l' f. (v', b', l') \<noteq> (v, b, l) \<longrightarrow>
            ice_buf u (v', b', l', f) = ice_buf t (v', b', l', f))"
  have keep: "\<forall>i\<in>set [0..<Nfrost opts]. \<forall>u u'. ?I u \<longrightarrow> ?body i u = Inr u' \<longrightarrow> ?I u'"
  proof (intro ballI allI impI)
    fix i u u' assume I: "?I u" and b: "?body i u = Inr u'"
    show "?I u'" using I ice_write_Inr [OF b] by simp
  qed
  show 1: "?I t'"
    by (rule for_each_Inr_invariant [where P = ?I, OF keep _ run]) simp
  assume f: "f < Nfrost opts"
  let ?Q = "\<lambda>u. ice_buf u (v, b, l, f) = Some (ice (layer (cell t v b) l) f)"
  have est: "\<forall>u u'. ?I u \<longrightarrow> ?body f u = Inr u' \<longrightarrow> ?Q u'"
  proof (intro allI impI)
    fix u u' assume I: "?I u" and b: "?body f u = Inr u'"
    show "?Q u'" using I ice_write_Inr [OF b] by simp
  qed
  have pres: "\<forall>j\<in>set [0..<Nfrost opts]. \<forall>u u'. ?I u \<longrightarrow> ?body j u = Inr u' \<longrightarrow>
                 ?I u' \<and> (?Q u \<longrightarrow> ?Q u')"
  proof (intro ballI allI impI)
    fix j u u' assume I: "?I u" and b: "?body j u = Inr u'"
    show "?I u' \<and> (?Q u \<longrightarrow> ?Q u')" using I ice_write_Inr [OF b] by simp
  qed
  show "?Q t'"
    by (rule for_each_Inr_establish [where I = ?I and Q = ?Q and i = f, OF _ est pres _ run])
       (simp_all add: f)
qed

lemma snapshot_layer_Inr:
  assumes run: "snapshot_layer c opts v b l t = Inr t'"
  shows "cell t' = cell t"
    and "moist_buf t' (v, b, l) = Some (moist (layer (cell t v b) l))"
    and "l' \<noteq> l \<Longrightarrow> moist_buf t' (v, b, l') = moist_buf t (v, b, l')"
    and "f < Nfrost opts \<Longrightarrow> ice_buf t' (v, b, l, f) = Some (ice (layer (cell t v b) l) f)"
    and "l' \<noteq> l \<Longrightarrow> ice_buf t' (v, b, l', f) = ice_buf t (v, b, l', f)"
proof -
  from run obtain t1 where
    w: "moist_write c v b l (moist (layer (cell t v b) l)) t = Inr t1" and
    fr: "for_each [0..<Nfrost opts]
            (\<lambda>frost_area s1.
               ice_write c v b l frost_area (ice (layer (cell s1 v b) l) frost_area) s1) t1
          = Inr t'"
    by (cases "moist_write c v b l (moist (layer (cell t v b) l)) t")
       (simp_all add: snapshot_layer_def)
  note t1 = moist_write_Inr [OF w]
  note a = snapshot_frost_Inr(1) [OF fr]
  show "cell t' = cell t" using a t1 by simp
  show "moist_buf t' (v, b, l) = Some (moist (layer (cell t v b) l))" using a t1 by simp
  show "l' \<noteq> l \<Longrightarrow> moist_buf t' (v, b, l') = moist_buf t (v, b, l')" using a t1 by simp
  show "f < Nfrost opts \<Longrightarrow> ice_buf t' (v, b, l, f) = Some (ice (layer (cell t v b) l) f)"
    using snapshot_frost_Inr(2) [OF fr, of f] t1 by simp
  show "l' \<noteq> l \<Longrightarrow> ice_buf t' (v, b, l', f) = ice_buf t (v, b, l', f)" using a t1 by simp
qed

text \<open>Once the copy of a tile is through, the local arrays hold what the layers of the
  tile held when it began.\<close>

lemma snapshot_Inr:
  assumes run: "snapshot c opts v b s = Inr s'" and l: "l < Nlayer opts"
  shows "moist_buf s' (v, b, l) = Some (moist (layer (cell s v b) l))"
    and "f < Nfrost opts \<Longrightarrow> ice_buf s' (v, b, l, f) = Some (ice (layer (cell s v b) l) f)"
proof -
  let ?I = "\<lambda>u. cell u = cell s"
  let ?Q = "\<lambda>u. moist_buf u (v, b, l) = Some (moist (layer (cell s v b) l)) \<and>
     (\<forall>f<Nfrost opts. ice_buf u (v, b, l, f) = Some (ice (layer (cell s v b) l) f))"
  have est: "\<forall>u u'. ?I u \<longrightarrow> snapshot_layer c opts v b l u = Inr u' \<longrightarrow> ?Q u'"
  proof (intro allI impI)
    fix u u' assume I: "?I u" and b: "snapshot_layer c opts v b l u = Inr u'"
    show "?Q u'" using I snapshot_layer_Inr(2,4) [OF b] by simp
  qed
  have pres: "\<forall>j\<in>set [0..<Nlayer opts]. \<forall>u u'. ?I u \<longrightarrow>
       snapshot_layer c opts v b j u = Inr u' \<longrightarrow> ?I u' \<and> (?Q u \<longrightarrow> ?Q u')"
  proof (intro ballI allI impI)
    fix j u u' assume I: "?I u" and b: "snapshot_layer c opts v b j u = Inr u'"
    show "?I u' \<and> (?Q u \<longrightarrow> ?Q u')"
    proof (cases "j = l")
      case True
      then show ?thesis using I snapshot_layer_Inr(1,2,4) [OF b] by simp
    next
      case False
      then have "l \<noteq> j" by simp
      then show ?thesis using I snapshot_layer_Inr(1) [OF b]
          snapshot_layer_Inr(3) [OF b, of l] snapshot_layer_Inr(5) [OF b, of l] by simp
    qed
  qed
  have "?Q s'"
    by (rule for_each_Inr_establish [where I = ?I and Q = ?Q and i = l,
          OF _ est pres _ run [unfolded snapshot_def]])
       (simp_all add: l)
  then show "moist_buf s' (v, b, l) = Some (moist (layer (cell s v b) l))"
    and "f < Nfrost opts \<Longrightarrow> ice_buf s' (v, b, l, f) = Some (ice (layer (cell s v b) l) f)"
    by simp_all
qed

lemma snapshot_layer_buffers_only:
  "buffers_only v b s (final_vars (snapshot_layer c opts v b l s))"
proof (cases "moist_write c v b l (moist (layer (cell s v b) l)) s")
  case (Inl e)
  then show ?thesis
    using moist_write_buffers_only [of v b s c l "moist (layer (cell s v b) l)"]
    by (simp add: snapshot_layer_def)
next
  case (Inr s1)
  then have 1: "buffers_only v b s s1"
    using moist_write_buffers_only [of v b s c l "moist (layer (cell s v b) l)"]
    by (simp add: final_vars_def)
  have "buffers_only v b s (final_vars (for_each [0..<Nfrost opts]
            (\<lambda>frost_area s1.
               ice_write c v b l frost_area (ice (layer (cell s1 v b) l) frost_area) s1) s1))"
  proof (rule for_each_final_invariant)
    show "buffers_only v b s s1" by (rule 1)
  next
    fix i s2 assume "buffers_only v b s s2"
    then show "buffers_only v b s
        (final_vars (ice_write c v b l i (ice (layer (cell s2 v b) l) i) s2))"
      using ice_write_buffers_only buffers_only_trans by blast
  qed
  then show ?thesis using Inr by (simp add: snapshot_layer_def)
qed

lemma snapshot_buffers_only:
  "buffers_only v b s (final_vars (snapshot c opts v b s))"
  unfolding snapshot_def
proof (rule for_each_final_invariant)
  show "buffers_only v b s s" by (rule buffers_only_refl)
next
  fix i s2 assume "buffers_only v b s s2"
  then show "buffers_only v b s (final_vars (snapshot_layer c opts v b i s2))"
    using snapshot_layer_buffers_only buffers_only_trans by blast
qed

lemma for_each_outcome:
  fixes body :: "'i \<Rightarrow> vars \<Rightarrow> outcome"
  assumes step: "\<forall>i\<in>set xs. \<forall>s. P s \<longrightarrow>
            (case body i s of Inl e \<Rightarrow> G (fst e) | Inr s' \<Rightarrow> P s')"
    and init: "P s"
  shows "case for_each xs body s of Inl e \<Rightarrow> G (fst e) | Inr s' \<Rightarrow> P s'"
  using assms
proof (induction xs arbitrary: s)
  case Nil
  then show ?case by simp
next
  case (Cons i xs)
  have here: "\<forall>s. P s \<longrightarrow> (case body i s of Inl e \<Rightarrow> G (fst e) | Inr s' \<Rightarrow> P s')"
    using Cons.prems(1) by (meson list.set_intros(1))
  have rest: "\<forall>i\<in>set xs. \<forall>s. P s \<longrightarrow>
            (case body i s of Inl e \<Rightarrow> G (fst e) | Inr s' \<Rightarrow> P s')"
    using Cons.prems(1) by (meson list.set_intros(2))
  have now: "case body i s of Inl e \<Rightarrow> G (fst e) | Inr s' \<Rightarrow> P s'"
    using here Cons.prems(2) by blast
  show ?case
  proof (cases "body i s")
    case (Inl e)
    then show ?thesis using now by simp
  next
    case (Inr s1)
    then have "P s1" using now by simp
    then have "case for_each xs body s1 of Inl e \<Rightarrow> G (fst e) | Inr s' \<Rightarrow> P s'"
      by (rule Cons.IH [OF rest])
    then show ?thesis using Inr by simp
  qed
qed

lemma tile_only_refl: "tile_only v b s s"
  by (simp add: tile_only_def)

lemma tile_only_trans: "tile_only v b s s1 \<Longrightarrow> tile_only v b s1 s2 \<Longrightarrow> tile_only v b s s2"
  by (simp add: tile_only_def)

lemma buffers_only_tile_only: "buffers_only v b s s' \<Longrightarrow> tile_only v b s s'"
  by (simp add: buffers_only_def tile_only_def)

lemma calls_ext_refl: "calls_ext s s"
  by (simp add: calls_ext_def)

lemma calls_ext_append:
  "Call_set_node_parameters \<notin> set ext \<Longrightarrow> calls s' = calls s @ ext \<Longrightarrow> calls_ext s s'"
  by (simp add: calls_ext_def)

lemma calls_ext_trans: "calls_ext s s1 \<Longrightarrow> calls_ext s1 s2 \<Longrightarrow> calls_ext s s2"
proof -
  assume a: "calls_ext s s1" and b: "calls_ext s1 s2"
  obtain e1 where e1: "calls s1 = calls s @ e1" "Call_set_node_parameters \<notin> set e1"
    using a append_take_drop_id [of "length (calls s)" "calls s1"]
    by (metis calls_ext_def)
  obtain e2 where e2: "calls s2 = calls s1 @ e2" "Call_set_node_parameters \<notin> set e2"
    using b append_take_drop_id [of "length (calls s1)" "calls s2"]
    by (metis calls_ext_def)
  have "calls s2 = calls s @ (e1 @ e2)" using e1 e2 by simp
  moreover have "Call_set_node_parameters \<notin> set (e1 @ e2)" using e1 e2 by simp
  ultimately show ?thesis by (rule calls_ext_append [rotated])
qed

lemma runoff_and_zwt_frame:
  "tile_only v b s (runoff_and_zwt r v b s)"
  "soil_con (runoff_and_zwt r v b s) = soil_con s"
  "energy (runoff_and_zwt r v b s) = energy s"
  "FIRST_VEG (runoff_and_zwt r v b s) = FIRST_VEG s"
  "moist_buf (runoff_and_zwt r v b s) = moist_buf s"
  "ice_buf (runoff_and_zwt r v b s) = ice_buf s"
  "calls_ext s (runoff_and_zwt r v b s)"
  by (simp_all add: runoff_and_zwt_def tile_only_def upd2_def calls_ext_def Let_def
        split: prod.splits)

lemma pass1_tile_frame:
  "tile_only v b s (final_vars (pass1_tile r c opts v b s))"
  "soil_con (final_vars (pass1_tile r c opts v b s)) = soil_con s"
  "energy (final_vars (pass1_tile r c opts v b s)) = energy s"
  "FIRST_VEG (final_vars (pass1_tile r c opts v b s)) = FIRST_VEG s"
  "calls_ext s (final_vars (pass1_tile r c opts v b s))"
proof -
  have bo: "buffers_only v b s (final_vars (snapshot c opts v b s))"
    by (rule snapshot_buffers_only)
  define out where "out = snapshot c opts v b s"
  have fin: "final_vars (pass1_tile r c opts v b s) =
      (case out of Inl e \<Rightarrow> snd e | Inr s' \<Rightarrow> runoff_and_zwt r v b s')"
    by (cases out) (simp_all add: pass1_tile_def out_def final_vars_def split: prod.splits)
  show "tile_only v b s (final_vars (pass1_tile r c opts v b s))"
  proof (cases out)
    case (Inl e)
    then show ?thesis using bo buffers_only_tile_only fin
      by (cases e) (simp add: out_def final_vars_def)
  next
    case (Inr s')
    then have "tile_only v b s s'" using bo buffers_only_tile_only
      by (simp add: out_def final_vars_def)
    then show ?thesis using fin Inr runoff_and_zwt_frame(1) [of v b s' r] tile_only_trans
      by auto
  qed
  show "soil_con (final_vars (pass1_tile r c opts v b s)) = soil_con s"
    using bo fin by (cases out) (simp_all add: out_def final_vars_def buffers_only_def
        runoff_and_zwt_frame split: prod.splits)
  show "energy (final_vars (pass1_tile r c opts v b s)) = energy s"
    using bo fin by (cases out) (simp_all add: out_def final_vars_def buffers_only_def
        runoff_and_zwt_frame split: prod.splits)
  show "FIRST_VEG (final_vars (pass1_tile r c opts v b s)) = FIRST_VEG s"
    using bo fin by (cases out) (simp_all add: out_def final_vars_def buffers_only_def
        runoff_and_zwt_frame split: prod.splits)
  show "calls_ext s (final_vars (pass1_tile r c opts v b s))"
  proof (cases out)
    case (Inl e)
    then have "calls (final_vars (pass1_tile r c opts v b s)) = calls s"
      using bo fin by (cases e) (simp add: out_def final_vars_def buffers_only_def)
    then show ?thesis by (simp add: calls_ext_def)
  next
    case (Inr s')
    then have "calls s' = calls s" using bo by (simp add: out_def final_vars_def buffers_only_def)
    then have "calls_ext s s'" by (simp add: calls_ext_def)
    then show ?thesis using fin Inr runoff_and_zwt_frame(7) [of s' r v b] calls_ext_trans
      by auto
  qed
qed

text \<open>Where the first pass can end early.\<close>

lemma moist_write_failure:
  "failure_of (moist_write c v b l x s) =
     (if v < MAX_VEG c \<and> b < MAX_BANDS c \<and> l < MAX_LAYERS c then None else Some Out_of_bounds)"
  by (simp add: moist_write_def failure_of_def)

lemma ice_write_failure:
  "failure_of (ice_write c v b l f x s) =
     (if v < MAX_VEG c \<and> b < MAX_BANDS c \<and> l < MAX_LAYERS c \<and> f < MAX_FROST_AREAS c
      then None else Some Out_of_bounds)"
  by (simp add: ice_write_def failure_of_def)

lemma failure_of_Inl: "failure_of (Inl e) = Some (fst e)"
  by (cases e) (simp add: failure_of_def)

lemma failure_of_Inr: "failure_of (Inr s) = None"
  by (simp add: failure_of_def)

lemma failure_of_outcome:
  "(case out of Inl e \<Rightarrow> G (fst e) | Inr s' \<Rightarrow> True) \<Longrightarrow> failure_of out = Some e \<Longrightarrow> G e"
  by (cases out) (simp_all add: failure_of_Inl failure_of_Inr)

lemma snapshot_layer_failure:
  "case snapshot_layer c opts v b l s of Inl e \<Rightarrow> fst e = Out_of_bounds \<and>
       \<not> (v < MAX_VEG c \<and> b < MAX_BANDS c \<and> l < MAX_LAYERS c \<and>
          Nfrost opts \<le> MAX_FROST_AREAS c)
     | Inr s' \<Rightarrow> True"
proof (cases "moist_write c v b l (moist (layer (cell s v b) l)) s")
  case (Inl e)
  then have "Some (fst e) =
     (if v < MAX_VEG c \<and> b < MAX_BANDS c \<and> l < MAX_LAYERS c then None else Some Out_of_bounds)"
    using moist_write_failure [of c v b l "moist (layer (cell s v b) l)" s]
    by (simp add: failure_of_Inl)
  then have "fst e = Out_of_bounds \<and> \<not> (v < MAX_VEG c \<and> b < MAX_BANDS c \<and> l < MAX_LAYERS c)"
    by (simp split: if_splits)
  then have "fst e = Out_of_bounds \<and>
       \<not> (v < MAX_VEG c \<and> b < MAX_BANDS c \<and> l < MAX_LAYERS c \<and>
          Nfrost opts \<le> MAX_FROST_AREAS c)"
    by blast
  then show ?thesis using Inl by (simp add: snapshot_layer_def)
next
  case (Inr s1)
  then have vb: "v < MAX_VEG c \<and> b < MAX_BANDS c \<and> l < MAX_LAYERS c"
    using moist_write_failure [of c v b l "moist (layer (cell s v b) l)" s]
    by (simp add: failure_of_Inr split: if_splits)
  let ?G = "\<lambda>e. e = Out_of_bounds \<and>
       \<not> (v < MAX_VEG c \<and> b < MAX_BANDS c \<and> l < MAX_LAYERS c \<and>
          Nfrost opts \<le> MAX_FROST_AREAS c)"
  have "case for_each [0..<Nfrost opts]
            (\<lambda>frost_area s1.
               ice_write c v b l frost_area (ice (layer (cell s1 v b) l) frost_area) s1) s1
        of Inl e \<Rightarrow> ?G (fst e) | Inr s' \<Rightarrow> True"
  proof (rule for_each_outcome [where P = "\<lambda>s. True" and G = ?G])
    show "\<forall>i\<in>set [0..<Nfrost opts]. \<forall>s. True \<longrightarrow>
       (case ice_write c v b l i (ice (layer (cell s v b) l) i) s of
          Inl e \<Rightarrow> ?G (fst e) | Inr s' \<Rightarrow> True)"
    proof (intro ballI allI impI)
      fix i t assume i: "i \<in> set [0..<Nfrost opts]"
      show "case ice_write c v b l i (ice (layer (cell t v b) l) i) t of
          Inl e \<Rightarrow> ?G (fst e) | Inr s' \<Rightarrow> True"
        using i by (simp add: ice_write_def) linarith
    qed
  qed simp
  then show ?thesis using Inr by (simp add: snapshot_layer_def)
qed

lemma snapshot_failure:
  "case snapshot c opts v b s of Inl e \<Rightarrow> fst e = Out_of_bounds \<and>
       \<not> (v < MAX_VEG c \<and> b < MAX_BANDS c \<and> Nlayer opts \<le> MAX_LAYERS c \<and>
          Nfrost opts \<le> MAX_FROST_AREAS c)
     | Inr s' \<Rightarrow> True"
  unfolding snapshot_def
proof (rule for_each_outcome [where P = "\<lambda>s. True"])
  show "\<forall>i\<in>set [0..<Nlayer opts]. \<forall>s. True \<longrightarrow>
       (case snapshot_layer c opts v b i s of
          Inl e \<Rightarrow> fst e = Out_of_bounds \<and>
             \<not> (v < MAX_VEG c \<and> b < MAX_BANDS c \<and> Nlayer opts \<le> MAX_LAYERS c \<and>
                Nfrost opts \<le> MAX_FROST_AREAS c)
        | Inr s' \<Rightarrow> True)"
  proof (intro ballI allI impI)
    fix i t assume i: "i \<in> set [0..<Nlayer opts]"
    show "case snapshot_layer c opts v b i t of
          Inl e \<Rightarrow> fst e = Out_of_bounds \<and>
             \<not> (v < MAX_VEG c \<and> b < MAX_BANDS c \<and> Nlayer opts \<le> MAX_LAYERS c \<and>
                Nfrost opts \<le> MAX_FROST_AREAS c)
        | Inr s' \<Rightarrow> True"
      using snapshot_layer_failure [where c = c and opts = opts and v = v and b = b
          and l = i and s = t] i
      by (cases "snapshot_layer c opts v b i t") auto
  qed
qed simp

lemma pass1_tile_failure:
  "case pass1_tile r c opts v b s of Inl e \<Rightarrow> fst e = Out_of_bounds \<and>
       \<not> (v < MAX_VEG c \<and> b < MAX_BANDS c \<and> Nlayer opts \<le> MAX_LAYERS c \<and>
          Nfrost opts \<le> MAX_FROST_AREAS c)
     | Inr s' \<Rightarrow> True"
  using snapshot_failure [where c = c and opts = opts and v = v and b = b and s = s]
  by (cases "snapshot c opts v b s") (simp_all add: pass1_tile_def)

text \<open>After its first pass a tile has its layers in the local arrays as they were
  before the pass touched it.\<close>

lemma pass1_tile_Inr:
  assumes run: "pass1_tile r c opts v b s = Inr s'" and l: "l < Nlayer opts"
  shows "moist_buf s' (v, b, l) = Some (moist (layer (cell s v b) l))"
    and "f < Nfrost opts \<Longrightarrow> ice_buf s' (v, b, l, f) = Some (ice (layer (cell s v b) l) f)"
proof -
  from run obtain s1 where s1: "snapshot c opts v b s = Inr s1"
    and s': "s' = runoff_and_zwt r v b s1"
    by (cases "snapshot c opts v b s") (simp_all add: pass1_tile_def)
  show "moist_buf s' (v, b, l) = Some (moist (layer (cell s v b) l))"
    using snapshot_Inr(1) [OF s1 l] s' by (simp add: runoff_and_zwt_frame)
  show "f < Nfrost opts \<Longrightarrow> ice_buf s' (v, b, l, f) = Some (ice (layer (cell s v b) l) f)"
    using snapshot_Inr(2) [OF s1 l] s' by (simp add: runoff_and_zwt_frame)
qed

section \<open>Properties of the second pass\<close>

lemma pass2_only_refl: "pass2_only v b s s"
  by (simp add: pass2_only_def tile_only_refl calls_ext_refl)

lemma pass2_only_trans:
  "pass2_only v b s s1 \<Longrightarrow> pass2_only v b s1 s2 \<Longrightarrow> pass2_only v b s s2"
  using tile_only_trans calls_ext_trans by (simp add: pass2_only_def) blast

lemma pass2_only_bind:
  assumes m: "pass2_only v b s (final_vars m)"
    and k: "\<And>s1. m = Inr s1 \<Longrightarrow> pass2_only v b s1 (final_vars (k s1))"
  shows "pass2_only v b s (final_vars (case m of Inl e \<Rightarrow> Inl e | Inr s1 \<Rightarrow> k s1))"
proof (cases m)
  case (Inl e)
  then show ?thesis using m by (simp add: final_vars_def)
next
  case (Inr s1)
  then have "pass2_only v b s s1" using m by (simp add: final_vars_def)
  then have "pass2_only v b s (final_vars (k s1))"
    using k [OF Inr] by (rule pass2_only_trans)
  then show ?thesis using Inr by simp
qed

lemma node_parameters_frame:
  "FIRST_VEG (node_parameters r opts s) = False"
  "cell (node_parameters r opts s) = cell s"
  "energy (node_parameters r opts s) = energy s"
  "moist_buf (node_parameters r opts s) = moist_buf s"
  "ice_buf (node_parameters r opts s) = ice_buf s"
  "AreaFract (soil_con (node_parameters r opts s)) = AreaFract (soil_con s)"
  "dz_node (soil_con (node_parameters r opts s)) = dz_node (soil_con s)"
  "FS_ACTIVE (soil_con (node_parameters r opts s)) = FS_ACTIVE (soil_con s)"
  by (simp_all add: node_parameters_def node_parameters_call_def split: prod.splits)

lemma node_parameters_later: "\<not> FIRST_VEG s \<Longrightarrow> node_parameters r opts s = s"
  by (simp add: node_parameters_def)

lemma node_parameters_first:
  "FIRST_VEG s \<Longrightarrow> calls (node_parameters r opts s) = calls s @ [Call_set_node_parameters]"
  "FIRST_VEG s \<Longrightarrow>
     soil_con (node_parameters r opts s) = node_parameters_call r opts (soil_con s)"
  by (simp_all add: node_parameters_def)

lemma node_parameters_tile_only: "tile_only v b s (node_parameters r opts s)"
  by (simp add: tile_only_def node_parameters_frame)

lemma node_moisture_written_only: "pass2_only v b s (node_moisture_written r opts v b s)"
  by (simp add: node_moisture_written_def pass2_only_def tile_only_def upd2_def calls_ext_def
        split: prod.splits)

lemma node_moisture_only: "pass2_only v b s (final_vars (node_moisture r c opts v b s))"
  by (simp add: node_moisture_def log_err_def final_vars_def node_moisture_written_only
        pass2_only_refl)

lemma time_step_check_final: "final_vars (time_step_check r gp opts v b s) = s"
  by (simp add: time_step_check_def log_err_def final_vars_def)

lemma time_step_check_only: "pass2_only v b s (final_vars (time_step_check r gp opts v b s))"
  by (simp add: time_step_check_final pass2_only_refl)

lemma ice_content_written_only: "pass2_only v b s (ice_content_written r opts v b s)"
  by (simp add: ice_content_written_def pass2_only_def tile_only_def upd2_def calls_ext_def)

lemma ice_content_only: "pass2_only v b s (final_vars (ice_content r c opts v b s))"
  by (simp add: ice_content_def log_err_def final_vars_def ice_content_written_only)

lemma fronts_only: "pass2_only v b s (fronts r opts v b s)"
  by (simp add: fronts_def pass2_only_def tile_only_def upd2_def calls_ext_def tile_only_refl)

lemma set_layer_moist_only: "pass2_only v b s (set_layer_moist v b l x s)"
  by (simp add: set_layer_moist_def pass2_only_def tile_only_def upd2_def calls_ext_def)

lemma set_layer_ice_only: "pass2_only v b s (set_layer_ice v b l f x s)"
  by (simp add: set_layer_ice_def pass2_only_def tile_only_def upd2_def calls_ext_def)

lemma moist_read_Inl: "moist_read c v b l s = Inl e \<Longrightarrow> snd e = s"
  by (auto simp: moist_read_def split: if_splits option.splits)

lemma ice_read_Inl: "ice_read c v b l f s = Inl e \<Longrightarrow> snd e = s"
  by (auto simp: ice_read_def split: if_splits option.splits)

lemma restore_layer_only: "pass2_only v b s (final_vars (restore_layer c opts v b l s))"
proof (cases "moist_read c v b l s")
  case (Inl e)
  then show ?thesis using moist_read_Inl [OF Inl]
    by (cases e) (simp add: restore_layer_def final_vars_def pass2_only_refl)
next
  case (Inr x)
  have "pass2_only v b s (final_vars (for_each [0..<Nfrost opts]
            (\<lambda>frost_area s1.
               case ice_read c v b l frost_area s1 of
                 Inl e \<Rightarrow> Inl e
               | Inr y \<Rightarrow> Inr (set_layer_ice v b l frost_area y s1))
            (set_layer_moist v b l x s)))"
  proof (rule for_each_final_invariant)
    show "pass2_only v b s (set_layer_moist v b l x s)" by (rule set_layer_moist_only)
  next
    fix i t assume t: "pass2_only v b s t"
    have "pass2_only v b t (final_vars (case ice_read c v b l i t of
                 Inl e \<Rightarrow> Inl e
               | Inr y \<Rightarrow> Inr (set_layer_ice v b l i y t)))"
    proof (cases "ice_read c v b l i t")
      case (Inl e)
      then show ?thesis using ice_read_Inl [OF Inl]
        by (cases e) (simp add: final_vars_def pass2_only_refl)
    next
      case (Inr y)
      then show ?thesis by (simp add: final_vars_def set_layer_ice_only)
    qed
    with t show "pass2_only v b s (final_vars (case ice_read c v b l i t of
                 Inl e \<Rightarrow> Inl e
               | Inr y \<Rightarrow> Inr (set_layer_ice v b l i y t)))"
      by (rule pass2_only_trans)
  qed
  then show ?thesis using Inr by (simp add: restore_layer_def)
qed

lemma restore_only: "pass2_only v b s (final_vars (restore c opts v b s))"
  unfolding restore_def
proof (rule for_each_final_invariant)
  show "pass2_only v b s s" by (rule pass2_only_refl)
next
  fix i t assume "pass2_only v b s t"
  then show "pass2_only v b s (final_vars (restore_layer c opts v b i t))"
    using restore_layer_only by (rule pass2_only_trans)
qed

lemma pass2_tile_start_only:
  "pass2_only v b (node_parameters r opts s) (final_vars (pass2_tile_start r c gp opts v b s))"
  unfolding pass2_tile_start_def
  by (intro pass2_only_bind node_moisture_only time_step_check_only restore_only)

lemma pass2_tile_only:
  "pass2_only v b (node_parameters r opts s) (final_vars (pass2_tile r c gp opts v b s))"
  unfolding pass2_tile_def
proof (intro pass2_only_bind pass2_tile_start_only ice_content_only)
  fix s1 s1a
  show "pass2_only v b s1a (final_vars (Inr (fronts r opts v b s1a)))"
    by (simp add: final_vars_def fronts_only)
qed

lemma moist_read_Inr:
  "moist_read c v b l s = Inr x \<Longrightarrow> moist_buf s (v, b, l) = Some x"
  by (simp add: moist_read_def split: if_splits option.splits)

lemma ice_read_Inr:
  "ice_read c v b l f s = Inr x \<Longrightarrow> ice_buf s (v, b, l, f) = Some x"
  by (simp add: ice_read_def split: if_splits option.splits)

lemma set_layer_moist_simps:
  "moist_buf (set_layer_moist v b l x s) = moist_buf s"
  "ice_buf (set_layer_moist v b l x s) = ice_buf s"
  "moist (layer (cell (set_layer_moist v b l x s) v b) l) = x"
  "ice (layer (cell (set_layer_moist v b l x s) v b) l') = ice (layer (cell s v b) l')"
  "l' \<noteq> l \<Longrightarrow> layer (cell (set_layer_moist v b l x s) v b) l' = layer (cell s v b) l'"
  by (simp_all add: set_layer_moist_def upd2_def)

lemma set_layer_ice_simps:
  "moist_buf (set_layer_ice v b l f x s) = moist_buf s"
  "ice_buf (set_layer_ice v b l f x s) = ice_buf s"
  "moist (layer (cell (set_layer_ice v b l f x s) v b) l') = moist (layer (cell s v b) l')"
  "ice (layer (cell (set_layer_ice v b l f x s) v b) l) f = x"
  "f' \<noteq> f \<Longrightarrow> ice (layer (cell (set_layer_ice v b l f x s) v b) l) f' =
      ice (layer (cell s v b) l) f'"
  "l' \<noteq> l \<Longrightarrow> layer (cell (set_layer_ice v b l f x s) v b) l' = layer (cell s v b) l'"
  by (simp_all add: set_layer_ice_def upd2_def)

text \<open>The inner loop of lines 189 to 194.\<close>

lemma restore_frost_Inr:
  assumes run: "for_each [0..<Nfrost opts]
            (\<lambda>frost_area s1.
               case ice_read c v b l frost_area s1 of
                 Inl e \<Rightarrow> Inl e
               | Inr y \<Rightarrow> Inr (set_layer_ice v b l frost_area y s1)) t = Inr t'"
  shows "moist_buf t' = moist_buf t \<and> ice_buf t' = ice_buf t \<and>
         moist (layer (cell t' v b) l) = moist (layer (cell t v b) l) \<and>
         (\<forall>l'. l' \<noteq> l \<longrightarrow> layer (cell t' v b) l' = layer (cell t v b) l')"
    and "f < Nfrost opts \<Longrightarrow> ice_buf t (v, b, l, f) = Some (ice (layer (cell t' v b) l) f)"
proof -
  let ?body = "\<lambda>frost_area s1.
               case ice_read c v b l frost_area s1 of
                 Inl e \<Rightarrow> Inl e
               | Inr y \<Rightarrow> Inr (set_layer_ice v b l frost_area y s1)"
  let ?I = "\<lambda>u. moist_buf u = moist_buf t \<and> ice_buf u = ice_buf t \<and>
         moist (layer (cell u v b) l) = moist (layer (cell t v b) l) \<and>
         (\<forall>l'. l' \<noteq> l \<longrightarrow> layer (cell u v b) l' = layer (cell t v b) l')"
  have body: "\<And>i u u'. ?body i u = Inr u' \<Longrightarrow>
      \<exists>y. ice_buf u (v, b, l, i) = Some y \<and> u' = set_layer_ice v b l i y u"
  proof -
    fix i u u' assume b: "?body i u = Inr u'"
    then obtain y where y: "ice_read c v b l i u = Inr y" and u': "u' = set_layer_ice v b l i y u"
      by (cases "ice_read c v b l i u") simp_all
    show "\<exists>y. ice_buf u (v, b, l, i) = Some y \<and> u' = set_layer_ice v b l i y u"
      using ice_read_Inr [OF y] u' by simp
  qed
  have keep: "\<forall>i\<in>set [0..<Nfrost opts]. \<forall>u u'. ?I u \<longrightarrow> ?body i u = Inr u' \<longrightarrow> ?I u'"
  proof (intro ballI allI impI)
    fix i u u' assume I: "?I u" and b: "?body i u = Inr u'"
    from body [OF b] obtain y where "u' = set_layer_ice v b l i y u" by blast
    then show "?I u'" using I by (simp add: set_layer_ice_simps)
  qed
  show "?I t'"
    by (rule for_each_Inr_invariant [where P = ?I, OF keep _ run]) simp
  assume f: "f < Nfrost opts"
  let ?Q = "\<lambda>u. ice_buf t (v, b, l, f) = Some (ice (layer (cell u v b) l) f)"
  have est: "\<forall>u u'. ?I u \<longrightarrow> ?body f u = Inr u' \<longrightarrow> ?Q u'"
  proof (intro allI impI)
    fix u u' assume I: "?I u" and b: "?body f u = Inr u'"
    from body [OF b] obtain y where "ice_buf u (v, b, l, f) = Some y"
      "u' = set_layer_ice v b l f y u" by blast
    then show "?Q u'" using I by (simp add: set_layer_ice_simps)
  qed
  have pres: "\<forall>j\<in>set [0..<Nfrost opts]. \<forall>u u'. ?I u \<longrightarrow> ?body j u = Inr u' \<longrightarrow>
                 ?I u' \<and> (?Q u \<longrightarrow> ?Q u')"
  proof (intro ballI allI impI)
    fix j u u' assume I: "?I u" and b: "?body j u = Inr u'"
    from body [OF b] obtain y where y: "ice_buf u (v, b, l, j) = Some y"
      "u' = set_layer_ice v b l j y u" by blast
    show "?I u' \<and> (?Q u \<longrightarrow> ?Q u')"
    proof (cases "j = f")
      case True
      then show ?thesis using I y by (simp add: set_layer_ice_simps)
    next
      case False
      then have "f \<noteq> j" by simp
      then show ?thesis using I y by (simp add: set_layer_ice_simps)
    qed
  qed
  show "?Q t'"
    by (rule for_each_Inr_establish [where I = ?I and Q = ?Q and i = f, OF _ est pres _ run])
       (simp_all add: f)
qed

lemma restore_layer_Inr:
  assumes run: "restore_layer c opts v b l t = Inr t'"
  shows "moist_buf t' = moist_buf t \<and> ice_buf t' = ice_buf t"
    and "moist_buf t (v, b, l) = Some (moist (layer (cell t' v b) l))"
    and "f < Nfrost opts \<Longrightarrow> ice_buf t (v, b, l, f) = Some (ice (layer (cell t' v b) l) f)"
    and "l' \<noteq> l \<Longrightarrow> layer (cell t' v b) l' = layer (cell t v b) l'"
proof -
  from run obtain x where x: "moist_read c v b l t = Inr x" and
    fr: "for_each [0..<Nfrost opts]
            (\<lambda>frost_area s1.
               case ice_read c v b l frost_area s1 of
                 Inl e \<Rightarrow> Inl e
               | Inr y \<Rightarrow> Inr (set_layer_ice v b l frost_area y s1))
            (set_layer_moist v b l x t) = Inr t'"
    by (cases "moist_read c v b l t") (simp_all add: restore_layer_def)
  note a = restore_frost_Inr(1) [OF fr]
  show "moist_buf t' = moist_buf t \<and> ice_buf t' = ice_buf t"
    using a by (simp add: set_layer_moist_simps)
  show "moist_buf t (v, b, l) = Some (moist (layer (cell t' v b) l))"
    using a moist_read_Inr [OF x] by (simp add: set_layer_moist_simps)
  show "f < Nfrost opts \<Longrightarrow> ice_buf t (v, b, l, f) = Some (ice (layer (cell t' v b) l) f)"
    using restore_frost_Inr(2) [OF fr, of f] by (simp add: set_layer_moist_simps)
  show "l' \<noteq> l \<Longrightarrow> layer (cell t' v b) l' = layer (cell t v b) l'"
    using a by (simp add: set_layer_moist_simps)
qed

text \<open>Once the loop of lines 186 to 195 is through, the layers of the tile hold what
  the local arrays hold.\<close>

lemma restore_Inr:
  assumes run: "restore c opts v b s = Inr s'" and l: "l < Nlayer opts"
  shows "moist_buf s (v, b, l) = Some (moist (layer (cell s' v b) l))"
    and "f < Nfrost opts \<Longrightarrow> ice_buf s (v, b, l, f) = Some (ice (layer (cell s' v b) l) f)"
proof -
  let ?I = "\<lambda>u. moist_buf u = moist_buf s \<and> ice_buf u = ice_buf s"
  let ?Q = "\<lambda>u. moist_buf s (v, b, l) = Some (moist (layer (cell u v b) l)) \<and>
     (\<forall>f<Nfrost opts. ice_buf s (v, b, l, f) = Some (ice (layer (cell u v b) l) f))"
  have est: "\<forall>u u'. ?I u \<longrightarrow> restore_layer c opts v b l u = Inr u' \<longrightarrow> ?Q u'"
  proof (intro allI impI)
    fix u u' assume I: "?I u" and b: "restore_layer c opts v b l u = Inr u'"
    show "?Q u'" using I restore_layer_Inr(2,3) [OF b] by simp
  qed
  have pres: "\<forall>j\<in>set [0..<Nlayer opts]. \<forall>u u'. ?I u \<longrightarrow>
       restore_layer c opts v b j u = Inr u' \<longrightarrow> ?I u' \<and> (?Q u \<longrightarrow> ?Q u')"
  proof (intro ballI allI impI)
    fix j u u' assume I: "?I u" and b: "restore_layer c opts v b j u = Inr u'"
    show "?I u' \<and> (?Q u \<longrightarrow> ?Q u')"
    proof (cases "j = l")
      case True
      then show ?thesis using I restore_layer_Inr(1,2,3) [OF b] by simp
    next
      case False
      then have "l \<noteq> j" by simp
      then show ?thesis using I restore_layer_Inr(1) [OF b]
          restore_layer_Inr(4) [OF b, of l] by simp
    qed
  qed
  have "?Q s'"
    by (rule for_each_Inr_establish [where I = ?I and Q = ?Q and i = l,
          OF _ est pres _ run [unfolded restore_def]])
       (simp_all add: l)
  then show "moist_buf s (v, b, l) = Some (moist (layer (cell s' v b) l))"
    and "f < Nfrost opts \<Longrightarrow> ice_buf s (v, b, l, f) = Some (ice (layer (cell s' v b) l) f)"
    by simp_all
qed

text \<open>Where the second pass can end early.\<close>

lemma moist_read_failure:
  assumes "moist_read c v b l s = Inl e" and "l < Nlayer opts"
  shows "(fst e = Out_of_bounds \<and> \<not> in_extents c opts v b) \<or>
         (fst e = Uninitialised_read \<and> \<not> filled opts v b s)"
proof (cases "v < MAX_VEG c \<and> b < MAX_BANDS c \<and> l < MAX_LAYERS c")
  case True
  then have "(case moist_buf s (v, b, l) of
              None \<Rightarrow> Inl (Uninitialised_read, s)
            | Some x \<Rightarrow> Inr x) = Inl e"
    using assms(1) by (simp add: moist_read_def)
  then have "moist_buf s (v, b, l) = None \<and> fst e = Uninitialised_read"
    by (cases "moist_buf s (v, b, l)") (simp_all, cases e, simp)
  then have "fst e = Uninitialised_read \<and> \<not> filled opts v b s"
    using assms(2) by (simp add: filled_def) blast
  then show ?thesis by simp
next
  case False
  have "Inl (Out_of_bounds, s) = Inl e"
    using assms(1) unfolding moist_read_def if_not_P [OF False] by simp
  then have "fst e = Out_of_bounds" by (cases e) simp
  moreover have "\<not> in_extents c opts v b" using False assms(2)
    by (simp add: in_extents_def) linarith
  ultimately show ?thesis by simp
qed

lemma ice_read_failure:
  assumes "ice_read c v b l f s = Inl e" and "l < Nlayer opts" and "f < Nfrost opts"
  shows "(fst e = Out_of_bounds \<and> \<not> in_extents c opts v b) \<or>
         (fst e = Uninitialised_read \<and> \<not> filled opts v b s)"
proof (cases "v < MAX_VEG c \<and> b < MAX_BANDS c \<and> l < MAX_LAYERS c \<and> f < MAX_FROST_AREAS c")
  case True
  then have "(case ice_buf s (v, b, l, f) of
              None \<Rightarrow> Inl (Uninitialised_read, s)
            | Some x \<Rightarrow> Inr x) = Inl e"
    using assms(1) by (simp add: ice_read_def)
  then have "ice_buf s (v, b, l, f) = None \<and> fst e = Uninitialised_read"
    by (cases "ice_buf s (v, b, l, f)") (simp_all, cases e, simp)
  then have "fst e = Uninitialised_read \<and> \<not> filled opts v b s"
    using assms(2,3) by (simp add: filled_def) blast
  then show ?thesis by simp
next
  case False
  have "Inl (Out_of_bounds, s) = Inl e"
    using assms(1) unfolding ice_read_def if_not_P [OF False] by simp
  then have "fst e = Out_of_bounds" by (cases e) simp
  moreover have "\<not> in_extents c opts v b" using False assms(2,3)
    by (simp add: in_extents_def) linarith
  ultimately show ?thesis by simp
qed

lemma filled_cong:
  "moist_buf t = moist_buf s \<Longrightarrow> ice_buf t = ice_buf s \<Longrightarrow> filled opts v b t = filled opts v b s"
  by (simp add: filled_def)

lemma restore_layer_failure:
  assumes l: "l < Nlayer opts"
  shows "case restore_layer c opts v b l s of
       Inl e \<Rightarrow> (fst e = Out_of_bounds \<and> \<not> in_extents c opts v b) \<or>
                 (fst e = Uninitialised_read \<and> \<not> filled opts v b s)
     | Inr s' \<Rightarrow> moist_buf s' = moist_buf s \<and> ice_buf s' = ice_buf s"
proof (cases "moist_read c v b l s")
  case (Inl e)
  then show ?thesis using moist_read_failure [OF Inl l] by (simp add: restore_layer_def)
next
  case (Inr x)
  let ?G = "\<lambda>e. (e = Out_of_bounds \<and> \<not> in_extents c opts v b) \<or>
                 (e = Uninitialised_read \<and> \<not> filled opts v b s)"
  let ?P = "\<lambda>u::vars. moist_buf u = moist_buf s \<and> ice_buf u = ice_buf s"
  have "case for_each [0..<Nfrost opts]
            (\<lambda>frost_area s1.
               case ice_read c v b l frost_area s1 of
                 Inl e \<Rightarrow> Inl e
               | Inr y \<Rightarrow> Inr (set_layer_ice v b l frost_area y s1))
            (set_layer_moist v b l x s)
        of Inl e \<Rightarrow> ?G (fst e) | Inr s' \<Rightarrow> ?P s'"
  proof (rule for_each_outcome [where P = ?P and G = ?G])
    show "?P (set_layer_moist v b l x s)" by (simp add: set_layer_moist_simps)
  next
    show "\<forall>i\<in>set [0..<Nfrost opts]. \<forall>u. ?P u \<longrightarrow>
       (case (case ice_read c v b l i u of
                 Inl e \<Rightarrow> Inl e
               | Inr y \<Rightarrow> Inr (set_layer_ice v b l i y u)) of
          Inl e \<Rightarrow> ?G (fst e) | Inr s' \<Rightarrow> ?P s')"
    proof (intro ballI allI impI)
      fix i and u :: vars assume i: "i \<in> set [0..<Nfrost opts]" and P: "?P u"
      have f: "i < Nfrost opts" using i by simp
      show "case (case ice_read c v b l i u of
                 Inl e \<Rightarrow> Inl e
               | Inr y \<Rightarrow> Inr (set_layer_ice v b l i y u)) of
          Inl e \<Rightarrow> ?G (fst e) | Inr s' \<Rightarrow> ?P s'"
      proof (cases "ice_read c v b l i u")
        case (Inl e)
        have "filled opts v b u = filled opts v b s" by (rule filled_cong) (simp_all add: P)
        then show ?thesis using ice_read_failure [OF Inl l f] Inl by simp
      next
        case (Inr y)
        then show ?thesis using P by (simp add: set_layer_ice_simps)
      qed
    qed
  qed
  then show ?thesis using Inr by (simp add: restore_layer_def)
qed

lemma restore_failure:
  "case restore c opts v b s of
       Inl e \<Rightarrow> (fst e = Out_of_bounds \<and> \<not> in_extents c opts v b) \<or>
                 (fst e = Uninitialised_read \<and> \<not> filled opts v b s)
     | Inr s' \<Rightarrow> True"
proof -
  let ?G = "\<lambda>e. (e = Out_of_bounds \<and> \<not> in_extents c opts v b) \<or>
                 (e = Uninitialised_read \<and> \<not> filled opts v b s)"
  let ?P = "\<lambda>u::vars. moist_buf u = moist_buf s \<and> ice_buf u = ice_buf s"
  have "case for_each [0..<Nlayer opts] (restore_layer c opts v b) s
        of Inl e \<Rightarrow> ?G (fst e) | Inr s' \<Rightarrow> ?P s'"
  proof (rule for_each_outcome [where P = ?P and G = ?G])
    show "?P s" by simp
  next
    show "\<forall>i\<in>set [0..<Nlayer opts]. \<forall>u. ?P u \<longrightarrow>
       (case restore_layer c opts v b i u of Inl e \<Rightarrow> ?G (fst e) | Inr s' \<Rightarrow> ?P s')"
    proof (intro ballI allI impI)
      fix i and u :: vars assume i: "i \<in> set [0..<Nlayer opts]" and P: "?P u"
      have l: "i < Nlayer opts" using i by simp
      have "filled opts v b u = filled opts v b s" by (rule filled_cong) (simp_all add: P)
      then show "case restore_layer c opts v b i u of
          Inl e \<Rightarrow> ?G (fst e) | Inr s' \<Rightarrow> ?P s'"
        using restore_layer_failure [OF l, where c = c and v = v and b = b and s = u] P
        by (cases "restore_layer c opts v b i u") simp_all
    qed
  qed
  then show ?thesis
    by (cases "restore c opts v b s") (simp_all add: restore_def)
qed

lemma node_moisture_failure:
  "node_moisture r c opts v b s = Inl e \<Longrightarrow> fst e = Exit_failure Err_node_properties"
  by (cases e) (simp add: node_moisture_def log_err_def split: if_splits)

lemma time_step_check_failure:
  "time_step_check r gp opts v b s = Inl e \<Longrightarrow> \<exists>m. fst e = Exit_failure m"
  by (cases e) (simp add: time_step_check_def log_err_def split: if_splits; blast)

lemma ice_content_failure:
  "ice_content r c opts v b s = Inl e \<Longrightarrow> \<exists>m. fst e = Exit_failure m"
  by (cases e) (simp add: ice_content_def log_err_def split: if_splits; blast)

lemma pass2_tile_failure:
  assumes "pass2_tile r c gp opts v b s = Inl e"
  shows "(\<exists>m. fst e = Exit_failure m) \<or>
         (fst e = Out_of_bounds \<and> \<not> in_extents c opts v b) \<or>
         (fst e = Uninitialised_read \<and> \<not> filled opts v b s)"
proof (cases "pass2_tile_start r c gp opts v b s")
  case (Inl e1)
  then have e1: "e1 = e" using assms by (simp add: pass2_tile_def)
  show ?thesis
  proof (cases "node_moisture r c opts v b (node_parameters r opts s)")
    case (Inl e2)
    then have "e2 = e" using \<open>pass2_tile_start r c gp opts v b s = Inl e1\<close> e1
      by (simp add: pass2_tile_start_def)
    then show ?thesis using node_moisture_failure [OF Inl] by simp
  next
    case (Inr s1)
    note s1 = Inr
    show ?thesis
    proof (cases "time_step_check r gp opts v b s1")
      case (Inl e2)
      then have "e2 = e" using \<open>pass2_tile_start r c gp opts v b s = Inl e1\<close> e1 s1
        by (simp add: pass2_tile_start_def)
      then show ?thesis using time_step_check_failure [OF Inl] by simp
    next
      case (Inr s2)
      then have r: "restore c opts v b s2 = Inl e"
        using \<open>pass2_tile_start r c gp opts v b s = Inl e1\<close> e1 s1
        by (simp add: pass2_tile_start_def)
      have "s2 = s1" using time_step_check_final [where r = r and gp = gp and opts = opts and v = v and b = b and s = s1] Inr
        by (simp add: final_vars_def)
      moreover have "pass2_only v b (node_parameters r opts s) s1"
        using node_moisture_only [of v b "node_parameters r opts s" r c opts] s1
        by (simp add: final_vars_def)
      ultimately have "moist_buf s2 = moist_buf s \<and> ice_buf s2 = ice_buf s"
        by (simp add: pass2_only_def node_parameters_frame)
      then have "filled opts v b s2 = filled opts v b s" by (intro filled_cong) simp_all
      then show ?thesis
        using restore_failure [where c = c and opts = opts and v = v and b = b and s = s2] r
        by simp
    qed
  qed
next
  case (Inr s3)
  then have "ice_content r c opts v b s3 = Inl e" using assms
    by (cases "ice_content r c opts v b s3") (simp_all add: pass2_tile_def)
  then show ?thesis using ice_content_failure by blast
qed

lemma for_each_cong_invariant:
  assumes same: "\<forall>i\<in>set xs. \<forall>s. I s \<longrightarrow> body i s = body' i s"
    and keep: "\<forall>i\<in>set xs. \<forall>s s'. I s \<longrightarrow> body' i s = Inr s' \<longrightarrow> I s'"
    and init: "I s"
  shows "for_each xs body s = for_each xs body' s"
  using assms
proof (induction xs arbitrary: s)
  case Nil
  then show ?case by simp
next
  case (Cons i xs)
  have here: "body i s = body' i s" using Cons.prems(1,3) by (meson list.set_intros(1))
  have same': "\<forall>i\<in>set xs. \<forall>s. I s \<longrightarrow> body i s = body' i s"
    using Cons.prems(1) by (meson list.set_intros(2))
  have keep': "\<forall>i\<in>set xs. \<forall>s s'. I s \<longrightarrow> body' i s = Inr s' \<longrightarrow> I s'"
    using Cons.prems(2) by (meson list.set_intros(2))
  show ?case
  proof (cases "body' i s")
    case (Inl e)
    then show ?thesis using here by simp
  next
    case (Inr s1)
    have "I s1" using Cons.prems(2,3) Inr by (meson list.set_intros(1))
    then have "for_each xs body s1 = for_each xs body' s1"
      by (rule Cons.IH [OF same' keep'])
    then show ?thesis using here Inr by simp
  qed
qed

text \<open>The two loops over vegetation classes and elevation bands, with their two guards,
  run the body on the tiles that pass both guards, in the order of the loops. The
  body must leave the area fractions of the bands as they are.\<close>

lemma tiles_loop:
  fixes tile :: "nat \<Rightarrow> nat \<Rightarrow> vars \<Rightarrow> outcome"
  assumes keep: "\<And>v b s s'. tile v b s = Inr s' \<Longrightarrow>
            AreaFract (soil_con s') = AreaFract (soil_con s)"
  shows "for_each vs
       (\<lambda>veg s1.
          if Cv (veg_con veg) > 0
          then for_each bs
                 (\<lambda>band s2.
                    if AreaFract (soil_con s2) band > 0
                    then tile veg band s2
                    else Inr s2)
                 s1
          else Inr s1)
       s =
     for_each
       (concat (map (\<lambda>veg. map (\<lambda>band. (veg, band))
                          (filter (\<lambda>band. Cv (veg_con veg) > 0 \<and>
                              AreaFract (soil_con s) band > 0) bs)) vs))
       (\<lambda>(v, b). tile v b) s"
proof -
  let ?I = "\<lambda>u::vars. AreaFract (soil_con u) = AreaFract (soil_con s)"
  let ?sel = "\<lambda>veg. filter (\<lambda>band. Cv (veg_con veg) > 0 \<and>
                              AreaFract (soil_con s) band > 0) bs"
  let ?inner = "\<lambda>veg s1. for_each bs
                 (\<lambda>band s2.
                    if AreaFract (soil_con s2) band > 0
                    then tile veg band s2
                    else Inr s2)
                 s1"
  have inner: "\<And>veg u. ?I u \<Longrightarrow>
      (if Cv (veg_con veg) > 0 then ?inner veg u else Inr u) = for_each (?sel veg) (tile veg) u"
  proof -
    fix veg and u :: vars assume u: "?I u"
    have g: "\<forall>i\<in>set bs. \<forall>j t t'. tile veg i t = Inr t' \<longrightarrow>
         (AreaFract (soil_con t') j > 0) = (AreaFract (soil_con t) j > 0)"
      using keep by simp
    have "?inner veg u =
        for_each (filter (\<lambda>band. AreaFract (soil_con u) band > 0) bs) (tile veg) u"
      by (rule for_each_guard [where g = "\<lambda>band t. AreaFract (soil_con t) band > 0", OF g])
    then show "(if Cv (veg_con veg) > 0 then ?inner veg u else Inr u) =
        for_each (?sel veg) (tile veg) u"
      using u by simp
  qed
  have keep_sel: "\<And>veg u u'. ?I u \<Longrightarrow> for_each (?sel veg) (tile veg) u = Inr u' \<Longrightarrow> ?I u'"
  proof -
    fix veg and u u' :: vars
    assume u: "?I u" and run: "for_each (?sel veg) (tile veg) u = Inr u'"
    have "\<forall>i\<in>set (?sel veg). \<forall>t t'. ?I t \<longrightarrow> tile veg i t = Inr t' \<longrightarrow> ?I t'"
      using keep by simp
    then show "?I u'" using u run by (rule for_each_Inr_invariant [where P = ?I])
  qed
  have "for_each vs (\<lambda>veg s1. if Cv (veg_con veg) > 0 then ?inner veg s1 else Inr s1) s =
        for_each vs (\<lambda>veg s1. for_each (?sel veg) (tile veg) s1) s"
  proof (rule for_each_cong_invariant [where I = ?I])
    show "\<forall>i\<in>set vs. \<forall>u. ?I u \<longrightarrow>
        (if Cv (veg_con i) > 0 then ?inner i u else Inr u) = for_each (?sel i) (tile i) u"
      using inner by blast
    show "\<forall>i\<in>set vs. \<forall>u u'. ?I u \<longrightarrow> for_each (?sel i) (tile i) u = Inr u' \<longrightarrow> ?I u'"
      using keep_sel by blast
    show "?I s" by simp
  qed
  also have "\<dots> = for_each (concat (map (\<lambda>veg. map (\<lambda>band. (veg, band)) (?sel veg)) vs))
       (\<lambda>(v, b). tile v b) s"
    by (rule for_each_nested)
  finally show ?thesis .
qed

lemma pass1_tile_AreaFract:
  "pass1_tile r c opts v b s = Inr s' \<Longrightarrow> AreaFract (soil_con s') = AreaFract (soil_con s)"
  using pass1_tile_frame(2) [of r c opts v b s] by (simp add: final_vars_def)

lemma pass2_tile_AreaFract:
  "pass2_tile r c gp opts v b s = Inr s' \<Longrightarrow> AreaFract (soil_con s') = AreaFract (soil_con s)"
  using pass2_tile_only [of v b r opts s c gp]
  by (simp add: final_vars_def pass2_only_def node_parameters_frame)

lemma pass1_tiles:
  "pass1 r c opts veg_con s =
   for_each (selected_tiles opts veg_con (soil_con s)) (\<lambda>(v, b). pass1_tile r c opts v b) s"
  unfolding pass1_def selected_tiles_def
  by (rule tiles_loop) (rule pass1_tile_AreaFract)

lemma pass2_tiles:
  "pass2 r c gp opts veg_con s =
   for_each (selected_tiles opts veg_con (soil_con s)) (\<lambda>(v, b). pass2_tile r c gp opts v b)
     (s\<lparr>FIRST_VEG := True\<rparr>)"
proof -
  have "soil_con (s\<lparr>FIRST_VEG := True\<rparr>) = soil_con s" by simp
  then show ?thesis
    unfolding pass2_def selected_tiles_def
    using tiles_loop [where tile = "pass2_tile r c gp opts" and s = "s\<lparr>FIRST_VEG := True\<rparr>"
        and veg_con = veg_con, OF pass2_tile_AreaFract]
    by simp
qed

lemma pairs_set:
  "(v, b) \<in> set (concat (map (\<lambda>veg. map (\<lambda>band. (veg, band)) (filter (P veg) bs)) vs)) \<longleftrightarrow>
     v \<in> set vs \<and> b \<in> set bs \<and> P v b"
  by (induction vs) auto

lemma pairs_distinct:
  "distinct vs \<Longrightarrow> distinct bs \<Longrightarrow>
   distinct (concat (map (\<lambda>veg. map (\<lambda>band. (veg, band)) (filter (P veg) bs)) vs))"
proof (induction vs)
  case Nil
  then show ?case by simp
next
  case (Cons a vs)
  have "distinct (map (\<lambda>band. (a, band)) (filter (P a) bs))"
    using Cons.prems(2) by (simp add: distinct_map inj_on_def)
  moreover have "distinct (concat (map (\<lambda>veg. map (\<lambda>band. (veg, band)) (filter (P veg) bs)) vs))"
    using Cons by simp
  moreover have "set (map (\<lambda>band. (a, band)) (filter (P a) bs)) \<inter>
     set (concat (map (\<lambda>veg. map (\<lambda>band. (veg, band)) (filter (P veg) bs)) vs)) = {}"
    using Cons.prems(1) by auto
  ultimately show ?case by simp
qed

lemma selected_tiles_set:
  "(v, b) \<in> set (selected_tiles opts veg_con sc) \<longleftrightarrow>
     v \<le> vegetat_type_num (veg_con 0) \<and> b < SNOW_BAND opts \<and>
     Cv (veg_con v) > 0 \<and> AreaFract sc b > 0"
  unfolding selected_tiles_def pairs_set by (simp del: upt_Suc) linarith

lemma distinct_selected_tiles: "distinct (selected_tiles opts veg_con sc)"
  unfolding selected_tiles_def
  by (rule pairs_distinct) (simp_all del: upt_Suc)

section \<open>Properties of the routine\<close>

lemma for_each_split:
  assumes "for_each (pre @ x # post) body s = Inr s'"
  shows "\<exists>s1 s2. for_each pre body s = Inr s1 \<and> body x s1 = Inr s2 \<and>
           for_each post body s2 = Inr s'"
proof (cases "for_each pre body s")
  case (Inl e)
  then show ?thesis using assms by (simp add: for_each_append)
next
  case (Inr s1)
  then have rest: "for_each (x # post) body s1 = Inr s'"
    using assms by (simp add: for_each_append)
  then obtain s2 where "body x s1 = Inr s2" "for_each post body s2 = Inr s'"
    by (cases "body x s1") simp_all
  then show ?thesis using Inr by blast
qed

lemma row_kept_refl: "row_kept v b s s"
  by (simp add: row_kept_def)

lemma row_kept_trans: "row_kept v b s s1 \<Longrightarrow> row_kept v b s1 s2 \<Longrightarrow> row_kept v b s s2"
  by (simp add: row_kept_def)

lemma tile_only_row_kept: "tile_only v' b' s s' \<Longrightarrow> (v, b) \<noteq> (v', b') \<Longrightarrow> row_kept v b s s'"
  by (simp add: tile_only_def row_kept_def)

lemma pass1_tile_row_kept:
  "(v, b) \<noteq> (v', b') \<Longrightarrow> row_kept v b s (final_vars (pass1_tile r c opts v' b' s))"
  using pass1_tile_frame(1) by (rule tile_only_row_kept)

lemma pass2_tile_row_kept:
  assumes "(v, b) \<noteq> (v', b')"
  shows "row_kept v b s (final_vars (pass2_tile r c gp opts v' b' s))"
proof -
  have "row_kept v b s (node_parameters r opts s)"
    using node_parameters_tile_only assms by (rule tile_only_row_kept)
  moreover have "row_kept v b (node_parameters r opts s)
      (final_vars (pass2_tile r c gp opts v' b' s))"
  proof -
    have "tile_only v' b' (node_parameters r opts s)
        (final_vars (pass2_tile r c gp opts v' b' s))"
      using pass2_tile_only [of v' b' r opts s c gp] by (simp add: pass2_only_def)
    then show ?thesis using assms by (rule tile_only_row_kept)
  qed
  ultimately show ?thesis by (rule row_kept_trans)
qed

text \<open>A loop over tiles leaves every tile alone that is not among them.\<close>

lemma tiles_row_kept:
  fixes tile :: "nat \<Rightarrow> nat \<Rightarrow> vars \<Rightarrow> outcome"
  assumes others: "\<And>v' b' u. (v, b) \<noteq> (v', b') \<Longrightarrow> row_kept v b u (final_vars (tile v' b' u))"
    and out: "(v, b) \<notin> set ts"
  shows "row_kept v b s (final_vars (for_each ts (\<lambda>(v, b). tile v b) s))"
proof (rule for_each_final_invariant [where P = "row_kept v b s"])
  show "row_kept v b s s" by (rule row_kept_refl)
next
  fix i :: "nat \<times> nat" and u :: vars assume i: "i \<in> set ts" and u: "row_kept v b s u"
  obtain v' b' where vb: "i = (v', b')" by (cases i)
  then have "(v, b) \<noteq> (v', b')" using i out by blast
  then have "row_kept v b u (final_vars (tile v' b' u))" by (rule others)
  with u have "row_kept v b s (final_vars (tile v' b' u))" by (rule row_kept_trans)
  then show "row_kept v b s (final_vars ((\<lambda>(v, b). tile v b) i u))"
    using vb by simp
qed

lemma tiles_row_kept_Inr:
  fixes tile :: "nat \<Rightarrow> nat \<Rightarrow> vars \<Rightarrow> outcome"
  assumes others: "\<And>v' b' u. (v, b) \<noteq> (v', b') \<Longrightarrow> row_kept v b u (final_vars (tile v' b' u))"
    and out: "(v, b) \<notin> set ts"
    and run: "for_each ts (\<lambda>(v, b). tile v b) s = Inr s'"
  shows "row_kept v b s s'"
  using tiles_row_kept [of v b tile ts s, OF others out] run by (simp add: final_vars_def)

text \<open>What the first pass keeps.\<close>

lemma pass1_keeps:
  "soil_con (final_vars (pass1 r c opts veg_con s)) = soil_con s \<and>
   energy (final_vars (pass1 r c opts veg_con s)) = energy s \<and>
   calls_ext s (final_vars (pass1 r c opts veg_con s))"
  unfolding pass1_tiles
proof (rule for_each_final_invariant
    [where P = "\<lambda>u. soil_con u = soil_con s \<and> energy u = energy s \<and> calls_ext s u"])
  show "soil_con s = soil_con s \<and> energy s = energy s \<and> calls_ext s s"
    by (simp add: calls_ext_refl)
next
  fix i :: "nat \<times> nat" and u :: vars assume u: "soil_con u = soil_con s \<and> energy u = energy s \<and> calls_ext s u"
  obtain v b where vb: "i = (v, b)" by (cases i)
  have "calls_ext s (final_vars (pass1_tile r c opts v b u))"
    using u pass1_tile_frame(5) [of u r c opts v b] calls_ext_trans by blast
  then show "soil_con (final_vars ((\<lambda>(v, b). pass1_tile r c opts v b) i u)) = soil_con s \<and>
      energy (final_vars ((\<lambda>(v, b). pass1_tile r c opts v b) i u)) = energy s \<and>
      calls_ext s (final_vars ((\<lambda>(v, b). pass1_tile r c opts v b) i u))"
    using u vb by (simp add: pass1_tile_frame)
qed

lemma pass1_Inr_keeps:
  assumes "pass1 r c opts veg_con s = Inr s1"
  shows "soil_con s1 = soil_con s" and "energy s1 = energy s" and "calls_ext s s1"
  using pass1_keeps [of r c opts veg_con s] assms by (simp_all add: final_vars_def)

text \<open>After the first pass the local arrays hold, for every tile that passed the
  guards, the layers as they were on entry.\<close>

lemma pass1_buffers:
  assumes run: "pass1 r c opts veg_con s = Inr s1"
    and sel: "(v, b) \<in> set (selected_tiles opts veg_con (soil_con s))"
    and l: "l < Nlayer opts"
  shows "moist_buf s1 (v, b, l) = Some (moist (layer (cell s v b) l))"
    and "f < Nfrost opts \<Longrightarrow> ice_buf s1 (v, b, l, f) = Some (ice (layer (cell s v b) l) f)"
proof -
  let ?ts = "selected_tiles opts veg_con (soil_con s)"
  let ?body = "\<lambda>(v, b). pass1_tile r c opts v b"
  obtain pre post where ts: "?ts = pre @ (v, b) # post"
    using sel by (meson split_list)
  have "distinct (pre @ (v, b) # post)" using distinct_selected_tiles [of opts veg_con "soil_con s"] ts
    by simp
  then have out: "(v, b) \<notin> set pre" "(v, b) \<notin> set post" by simp_all
  have "for_each (pre @ (v, b) # post) ?body s = Inr s1"
    using run ts by (simp add: pass1_tiles)
  then obtain u1 u2 where pre: "for_each pre ?body s = Inr u1"
    and here: "pass1_tile r c opts v b u1 = Inr u2"
    and post: "for_each post ?body u2 = Inr s1"
    using for_each_split [of pre "(v, b)" post ?body s s1] by auto
  have k1: "row_kept v b s u1"
    using pass1_tile_row_kept out(1) pre by (rule tiles_row_kept_Inr)
  have k2: "row_kept v b u2 s1"
    using pass1_tile_row_kept out(2) post by (rule tiles_row_kept_Inr)
  show "moist_buf s1 (v, b, l) = Some (moist (layer (cell s v b) l))"
    using pass1_tile_Inr(1) [OF here l] k1 k2 by (simp add: row_kept_def)
  show "f < Nfrost opts \<Longrightarrow> ice_buf s1 (v, b, l, f) = Some (ice (layer (cell s v b) l) f)"
    using pass1_tile_Inr(2) [OF here l, of f] k1 k2 by (simp add: row_kept_def)
qed

lemma pass1_filled:
  assumes "pass1 r c opts veg_con s = Inr s1"
    and "(v, b) \<in> set (selected_tiles opts veg_con (soil_con s))"
  shows "filled opts v b s1"
  using pass1_buffers [OF assms] by (simp add: filled_def)

text \<open>The first pass ends early only by leaving the local arrays.\<close>

lemma pass1_failure:
  "case pass1 r c opts veg_con s of
     Inl e \<Rightarrow> fst e = Out_of_bounds \<and>
        \<not> (\<forall>t\<in>set (selected_tiles opts veg_con (soil_con s)). in_extents c opts (fst t) (snd t))
   | Inr s' \<Rightarrow> True"
  unfolding pass1_tiles
proof (rule for_each_outcome [where P = "\<lambda>u. True"])
  show "\<forall>i\<in>set (selected_tiles opts veg_con (soil_con s)). \<forall>u. True \<longrightarrow>
     (case (\<lambda>(v, b). pass1_tile r c opts v b) i u of
        Inl e \<Rightarrow> fst e = Out_of_bounds \<and>
          \<not> (\<forall>t\<in>set (selected_tiles opts veg_con (soil_con s)).
                in_extents c opts (fst t) (snd t))
      | Inr s' \<Rightarrow> True)"
  proof (intro ballI allI impI)
    fix i :: "nat \<times> nat" and u :: vars
    assume i: "i \<in> set (selected_tiles opts veg_con (soil_con s))"
    obtain v b where vb: "i = (v, b)" by (cases i)
    show "case (\<lambda>(v, b). pass1_tile r c opts v b) i u of
        Inl e \<Rightarrow> fst e = Out_of_bounds \<and>
          \<not> (\<forall>t\<in>set (selected_tiles opts veg_con (soil_con s)).
                in_extents c opts (fst t) (snd t))
      | Inr s' \<Rightarrow> True"
    proof (cases "pass1_tile r c opts v b u")
      case (Inl e)
      then have "fst e = Out_of_bounds \<and> \<not> in_extents c opts v b"
        using pass1_tile_failure [where r = r and c = c and opts = opts and v = v and b = b
            and s = u]
        by (simp add: in_extents_def)
      moreover have "\<not> in_extents c opts v b \<Longrightarrow>
          \<not> (\<forall>t\<in>set (selected_tiles opts veg_con (soil_con s)).
                in_extents c opts (fst t) (snd t))"
        using i vb by force
      ultimately show ?thesis using Inl vb by simp
    next
      case (Inr s')
      then show ?thesis using vb by simp
    qed
  qed
qed simp

text \<open>The tiles of the second pass leave the local arrays as they are.\<close>

lemma pass2_tile_buffers:
  "moist_buf (final_vars (pass2_tile r c gp opts v b s)) = moist_buf s"
  "ice_buf (final_vars (pass2_tile r c gp opts v b s)) = ice_buf s"
  using pass2_tile_only [of v b r opts s c gp]
  by (simp_all add: pass2_only_def node_parameters_frame)

lemma pass2_tiles_buffers:
  "moist_buf (final_vars (for_each ts (\<lambda>(v, b). pass2_tile r c gp opts v b) s)) = moist_buf s \<and>
   ice_buf (final_vars (for_each ts (\<lambda>(v, b). pass2_tile r c gp opts v b) s)) = ice_buf s"
proof (rule for_each_final_invariant
    [where P = "\<lambda>u. moist_buf u = moist_buf s \<and> ice_buf u = ice_buf s"])
  show "moist_buf s = moist_buf s \<and> ice_buf s = ice_buf s" by simp
next
  fix i :: "nat \<times> nat" and u :: vars
  assume u: "moist_buf u = moist_buf s \<and> ice_buf u = ice_buf s"
  obtain v b where vb: "i = (v, b)" by (cases i)
  show "moist_buf (final_vars ((\<lambda>(v, b). pass2_tile r c gp opts v b) i u)) = moist_buf s \<and>
      ice_buf (final_vars ((\<lambda>(v, b). pass2_tile r c gp opts v b) i u)) = ice_buf s"
    using u vb by (simp add: pass2_tile_buffers)
qed

text \<open>Where a run over tiles in the second pass can end early, if the rows of the
  tiles were written.\<close>

lemma pass2_tiles_failure:
  assumes full: "\<forall>t\<in>set ts. filled opts (fst t) (snd t) s"
  shows "case for_each ts (\<lambda>(v, b). pass2_tile r c gp opts v b) s of
     Inl e \<Rightarrow> (\<exists>m. fst e = Exit_failure m) \<or>
        (fst e = Out_of_bounds \<and> \<not> (\<forall>t\<in>set ts. in_extents c opts (fst t) (snd t)))
   | Inr s' \<Rightarrow> True"
proof -
  let ?P = "\<lambda>u::vars. moist_buf u = moist_buf s \<and> ice_buf u = ice_buf s"
  let ?G = "\<lambda>e. (\<exists>m. e = Exit_failure m) \<or>
        (e = Out_of_bounds \<and> \<not> (\<forall>t\<in>set ts. in_extents c opts (fst t) (snd t)))"
  have "case for_each ts (\<lambda>(v, b). pass2_tile r c gp opts v b) s of
     Inl e \<Rightarrow> ?G (fst e) | Inr s' \<Rightarrow> ?P s'"
  proof (rule for_each_outcome [where P = ?P and G = ?G])
    show "?P s" by simp
  next
    show "\<forall>i\<in>set ts. \<forall>u. ?P u \<longrightarrow>
       (case (\<lambda>(v, b). pass2_tile r c gp opts v b) i u of
          Inl e \<Rightarrow> ?G (fst e) | Inr s' \<Rightarrow> ?P s')"
    proof (intro ballI allI impI)
      fix i :: "nat \<times> nat" and u :: vars
      assume i: "i \<in> set ts" and u: "?P u"
      obtain v b where vb: "i = (v, b)" by (cases i)
      have "filled opts v b s" using full i vb by force
      moreover have "filled opts v b u = filled opts v b s"
        by (rule filled_cong) (simp_all add: u)
      ultimately have fu: "filled opts v b u" by simp
      show "case (\<lambda>(v, b). pass2_tile r c gp opts v b) i u of
          Inl e \<Rightarrow> ?G (fst e) | Inr s' \<Rightarrow> ?P s'"
      proof (cases "pass2_tile r c gp opts v b u")
        case (Inl e)
        have "(\<exists>m. fst e = Exit_failure m) \<or> (fst e = Out_of_bounds \<and> \<not> in_extents c opts v b)"
          using pass2_tile_failure [OF Inl] fu by blast
        moreover have "\<not> in_extents c opts v b \<Longrightarrow>
            \<not> (\<forall>t\<in>set ts. in_extents c opts (fst t) (snd t))"
          using i vb by force
        ultimately show ?thesis using Inl vb by auto
      next
        case (Inr s')
        then show ?thesis
          using vb u pass2_tile_buffers [of r c gp opts v b u] by (simp add: final_vars_def)
      qed
    qed
  qed
  then show ?thesis
    by (cases "for_each ts (\<lambda>(v, b). pass2_tile r c gp opts v b) s") simp_all
qed

text \<open>Where the routine can end early.\<close>

lemma compute_failure:
  assumes "compute_derived_state_vars r c gp opts cells energies soil veg_con = Inl e"
  shows "(\<exists>m. fst e = Exit_failure m) \<or>
     (fst e = Out_of_bounds \<and>
      \<not> (\<forall>t\<in>set (selected_tiles opts veg_con soil). in_extents c opts (fst t) (snd t)))"
proof -
  let ?ts = "selected_tiles opts veg_con soil"
  let ?s0 = "entry_vars cells energies soil"
  have e0: "soil_con ?s0 = soil" by (simp add: entry_vars_def)
  show ?thesis
  proof (cases "pass1 r c opts veg_con ?s0")
    case (Inl e1)
    then have "e1 = e" using assms by (simp add: compute_derived_state_vars_def)
    then show ?thesis
      using pass1_failure [where r = r and c = c and opts = opts and veg_con = veg_con
          and s = ?s0] Inl e0
      by simp
  next
    case (Inr s1)
    have sc: "soil_con s1 = soil" using pass1_Inr_keeps(1) [OF Inr] e0 by simp
    have full: "\<forall>t\<in>set ?ts. filled opts (fst t) (snd t) (s1\<lparr>FIRST_VEG := True\<rparr>)"
    proof
      fix t assume t: "t \<in> set ?ts"
      then have "(fst t, snd t) \<in> set (selected_tiles opts veg_con (soil_con ?s0))"
        using e0 by simp
      then have "filled opts (fst t) (snd t) s1" by (rule pass1_filled [OF Inr])
      then show "filled opts (fst t) (snd t) (s1\<lparr>FIRST_VEG := True\<rparr>)"
        by (simp add: filled_def)
    qed
    have "for_each ?ts (\<lambda>(v, b). pass2_tile r c gp opts v b) (s1\<lparr>FIRST_VEG := True\<rparr>) = Inl e"
      using assms Inr by (simp add: compute_derived_state_vars_def pass2_tiles sc)
    then show ?thesis
      using pass2_tiles_failure [OF full, where r = r and c = c and gp = gp] by simp
  qed
qed

lemma concat_map_if:
  "concat (map (\<lambda>b. if P b then [f b] else []) bs) = map f (filter P bs)"
  by (induction bs) simp_all

lemma tiles_by_weight_selected:
  assumes "\<forall>v. 0 \<le> Cv (veg_con v)" and "\<forall>b. 0 \<le> AreaFract sc b"
  shows "tiles_by_weight opts veg_con sc = selected_tiles opts veg_con sc"
proof -
  have "\<And>v b. (0 < Cv (veg_con v) * AreaFract sc b) =
      (0 < Cv (veg_con v) \<and> 0 < AreaFract sc b)"
    using assms by (simp add: zero_less_mult_iff) (meson not_less)
  then show ?thesis
    by (simp add: tiles_by_weight_def selected_tiles_def concat_map_if del: upt_Suc)
qed

lemma compute_tiles:
  "compute_derived_state_vars r c gp opts cells energies soil veg_con =
     (case for_each (selected_tiles opts veg_con soil)
             (\<lambda>(v, b). pass1_tile r c opts v b) (entry_vars cells energies soil) of
        Inl e \<Rightarrow> Inl e
      | Inr s \<Rightarrow>
          for_each (selected_tiles opts veg_con soil)
            (\<lambda>(v, b). pass2_tile r c gp opts v b) (s\<lparr>FIRST_VEG := True\<rparr>))"
proof -
  have e: "soil_con (entry_vars cells energies soil) = soil"
    by (simp add: entry_vars_def)
  show ?thesis
  proof (cases "pass1 r c opts veg_con (entry_vars cells energies soil)")
    case (Inl e1)
    then show ?thesis
      using pass1_tiles [of r c opts veg_con "entry_vars cells energies soil"] e
      by (simp add: compute_derived_state_vars_def)
  next
    case (Inr s1)
    have sc: "soil_con s1 = soil" using pass1_Inr_keeps(1) [OF Inr] e by simp
    have p1: "for_each (selected_tiles opts veg_con soil)
             (\<lambda>(v, b). pass1_tile r c opts v b) (entry_vars cells energies soil) = Inr s1"
      using Inr by (simp add: pass1_tiles e)
    show ?thesis
      by (simp add: compute_derived_state_vars_def Inr p1 pass2_tiles sc)
  qed
qed

lemma Inr_final_vars: "failure_of out = None \<Longrightarrow> out = Inr (final_vars out)"
  by (cases out) (simp_all add: failure_of_Inl failure_of_Inr final_vars_def)

lemma calls_ext_D:
  assumes "calls_ext s s'"
  shows "\<exists>ext. calls s' = calls s @ ext \<and> Call_set_node_parameters \<notin> set ext"
proof -
  have "calls s' = calls s @ drop (length (calls s)) (calls s')"
    using assms append_take_drop_id [of "length (calls s)" "calls s'"]
    by (simp add: calls_ext_def)
  moreover have "Call_set_node_parameters \<notin> set (drop (length (calls s)) (calls s'))"
    using assms by (simp add: calls_ext_def)
  ultimately show ?thesis by blast
qed

text \<open>A run that comes to a tile of the second pass goes on with that tile.\<close>

lemma compute_reach:
  assumes p1: "pass1 r c opts veg_con (entry_vars cells energies soil) = Inr s1"
    and sel: "selected_tiles opts veg_con soil = pre @ (v, b) # post"
    and reach: "for_each pre (\<lambda>(v, b). pass2_tile r c gp opts v b) (s1\<lparr>FIRST_VEG := True\<rparr>)
                  = Inr s2"
  shows "compute_derived_state_vars r c gp opts cells energies soil veg_con =
     (case pass2_tile r c gp opts v b s2 of
        Inl e \<Rightarrow> Inl e
      | Inr s' \<Rightarrow> for_each post (\<lambda>(v, b). pass2_tile r c gp opts v b) s')"
proof -
  have e0: "soil_con (entry_vars cells energies soil) = soil" by (simp add: entry_vars_def)
  have p1': "for_each (selected_tiles opts veg_con soil)
             (\<lambda>(v, b). pass1_tile r c opts v b) (entry_vars cells energies soil) = Inr s1"
    using p1 by (simp add: pass1_tiles e0)
  have "compute_derived_state_vars r c gp opts cells energies soil veg_con =
      for_each (pre @ (v, b) # post) (\<lambda>(v, b). pass2_tile r c gp opts v b)
        (s1\<lparr>FIRST_VEG := True\<rparr>)"
    by (simp add: compute_tiles p1' sel [symmetric])
  then show ?thesis by (simp add: for_each_append reach)
qed

lemma reach_buffers:
  assumes "for_each pre (\<lambda>(v, b). pass2_tile r c gp opts v b) (s1\<lparr>FIRST_VEG := True\<rparr>) = Inr s2"
  shows "moist_buf s2 = moist_buf s1" and "ice_buf s2 = ice_buf s1"
  using pass2_tiles_buffers [of pre r c gp opts "s1\<lparr>FIRST_VEG := True\<rparr>"] assms
  by (simp_all add: final_vars_def)

text \<open>What came before the write-back of a tile left the local arrays alone.\<close>

lemma pass2_tile_start_Inr:
  assumes "pass2_tile_start r c gp opts v b s = Inr s3"
  shows "\<exists>u. restore c opts v b u = Inr s3 \<and> moist_buf u = moist_buf s \<and>
           ice_buf u = ice_buf s"
proof -
  from assms obtain u1 where u1: "node_moisture r c opts v b (node_parameters r opts s) = Inr u1"
    and rest: "(case time_step_check r gp opts v b u1 of
             Inl e \<Rightarrow> Inl e
           | Inr s2 \<Rightarrow> restore c opts v b s2) = Inr s3"
    by (cases "node_moisture r c opts v b (node_parameters r opts s)")
       (simp_all add: pass2_tile_start_def)
  from rest obtain u2 where u2: "time_step_check r gp opts v b u1 = Inr u2"
    and r3: "restore c opts v b u2 = Inr s3"
    by (cases "time_step_check r gp opts v b u1") simp_all
  have "u2 = u1" using time_step_check_final [where r = r and gp = gp and opts = opts and v = v and b = b and s = u1] u2 by (simp add: final_vars_def)
  moreover have "pass2_only v b (node_parameters r opts s) u1"
    using node_moisture_only [of v b "node_parameters r opts s" r c opts] u1
    by (simp add: final_vars_def)
  ultimately have "moist_buf u2 = moist_buf s \<and> ice_buf u2 = ice_buf s"
    by (simp add: pass2_only_def node_parameters_frame)
  then show ?thesis using r3 by blast
qed

text \<open>From the first tile of the second pass on the flag is down, the soil structure is
  the one that \<^verbatim>\<open>set_node_parameters\<close> left, and that routine is not called again.\<close>

lemma pass2_tile_later:
  assumes "\<not> FIRST_VEG s"
  shows "FIRST_VEG (final_vars (pass2_tile r c gp opts v b s)) = False"
    and "soil_con (final_vars (pass2_tile r c gp opts v b s)) = soil_con s"
    and "calls_ext s (final_vars (pass2_tile r c gp opts v b s))"
  using pass2_tile_only [of v b r opts s c gp] node_parameters_later [OF assms, of r opts] assms
  by (simp_all add: pass2_only_def)

lemma pass2_tiles_later:
  assumes "\<not> FIRST_VEG s"
  shows "FIRST_VEG (final_vars (for_each ts (\<lambda>(v, b). pass2_tile r c gp opts v b) s)) = False \<and>
     soil_con (final_vars (for_each ts (\<lambda>(v, b). pass2_tile r c gp opts v b) s)) = soil_con s \<and>
     calls_ext s (final_vars (for_each ts (\<lambda>(v, b). pass2_tile r c gp opts v b) s))"
proof (rule for_each_final_invariant
    [where P = "\<lambda>u. FIRST_VEG u = False \<and> soil_con u = soil_con s \<and> calls_ext s u"])
  show "FIRST_VEG s = False \<and> soil_con s = soil_con s \<and> calls_ext s s"
    using assms by (simp add: calls_ext_refl)
next
  fix i :: "nat \<times> nat" and u :: vars
  assume u: "FIRST_VEG u = False \<and> soil_con u = soil_con s \<and> calls_ext s u"
  obtain v b where vb: "i = (v, b)" by (cases i)
  have nf: "\<not> FIRST_VEG u" using u by simp
  have "calls_ext s (final_vars (pass2_tile r c gp opts v b u))"
    using u pass2_tile_later(3) [OF nf, of r c gp opts v b] calls_ext_trans by blast
  then show "FIRST_VEG (final_vars ((\<lambda>(v, b). pass2_tile r c gp opts v b) i u)) = False \<and>
      soil_con (final_vars ((\<lambda>(v, b). pass2_tile r c gp opts v b) i u)) = soil_con s \<and>
      calls_ext s (final_vars ((\<lambda>(v, b). pass2_tile r c gp opts v b) i u))"
    using u vb pass2_tile_later(1,2) [OF nf, of r c gp opts v b] by simp
qed

lemma pass2_tiles_first:
  assumes first: "FIRST_VEG s" and ne: "ts \<noteq> []"
  shows "soil_con (final_vars (for_each ts (\<lambda>(v, b). pass2_tile r c gp opts v b) s)) =
           node_parameters_call r opts (soil_con s) \<and>
         calls_ext (node_parameters r opts s)
           (final_vars (for_each ts (\<lambda>(v, b). pass2_tile r c gp opts v b) s))"
proof -
  obtain v b rest where ts: "ts = (v, b) # rest" using ne by (cases ts) auto
  let ?N = "node_parameters r opts s"
  let ?t = "pass2_tile r c gp opts v b s"
  have t: "pass2_only v b ?N (final_vars ?t)" by (rule pass2_tile_only)
  have N: "soil_con ?N = node_parameters_call r opts (soil_con s)"
    using first by (rule node_parameters_first(2))
  show ?thesis
  proof (cases ?t)
    case (Inl e)
    then have "final_vars (for_each ts (\<lambda>(v, b). pass2_tile r c gp opts v b) s) = final_vars ?t"
      using ts by simp
    then show ?thesis using t N by (simp add: pass2_only_def)
  next
    case (Inr u)
    have u: "pass2_only v b ?N u" using t Inr by (simp add: final_vars_def)
    then have nf: "\<not> FIRST_VEG u" by (simp add: pass2_only_def node_parameters_frame)
    have fin: "final_vars (for_each ts (\<lambda>(v, b). pass2_tile r c gp opts v b) s) =
        final_vars (for_each rest (\<lambda>(v, b). pass2_tile r c gp opts v b) u)"
      using ts Inr by simp
    have "calls_ext ?N u" using u by (simp add: pass2_only_def)
    then have "calls_ext ?N (final_vars (for_each rest (\<lambda>(v, b). pass2_tile r c gp opts v b) u))"
      using pass2_tiles_later [OF nf, of rest r c gp opts] calls_ext_trans by blast
    moreover have "soil_con (final_vars (for_each rest (\<lambda>(v, b). pass2_tile r c gp opts v b) u))
        = node_parameters_call r opts (soil_con s)"
      using pass2_tiles_later [OF nf, of rest r c gp opts] u N by (simp add: pass2_only_def)
    ultimately show ?thesis using fin by simp
  qed
qed

section \<open>The statements of the design\<close>

lemmas ex_defs = ex_run_def ex_def_def ex_opts_def ex_veg_con_def ex_soil_con_def ex_cell_def
  ex_energy_def ex_routines_def ex_times_def ex_divide_def ex_pow_def ex_greater_def

lemmas run_defs = compute_derived_state_vars_def entry_vars_def pass1_def pass2_def
  pass1_tile_def pass2_tile_def pass2_tile_start_def snapshot_def snapshot_layer_def
  runoff_and_zwt_def node_parameters_def node_parameters_call_def node_moisture_def node_moisture_call_def
  node_moisture_written_def time_step_check_def dt_thresh_def restore_def restore_layer_def
  set_layer_moist_def set_layer_ice_def ice_content_def ice_content_call_def
  ice_content_written_def fronts_def log_err_def moist_write_def ice_write_def moist_read_def
  ice_read_def upd2_def

lemma runoff_tiles_append: "runoff_tiles (xs @ ys) = runoff_tiles xs @ runoff_tiles ys"
  by (simp add: runoff_tiles_def)

lemma ice_content_tiles_append:
  "ice_content_tiles (xs @ ys) = ice_content_tiles xs @ ice_content_tiles ys"
  by (simp add: ice_content_tiles_def)

lemma take_length_take: "xs = take n ys \<Longrightarrow> xs = take (length xs) ys"
  by (cases "n \<le> length ys") (simp_all add: min_def)

lemma final_vars_Inl: "final_vars (Inl e) = snd e"
  by (cases e) (simp add: final_vars_def)

lemma final_vars_Inr: "final_vars (Inr s) = s"
  by (simp add: final_vars_def)

text \<open>What a tile of the first pass adds to the record of calls.\<close>

lemma pass1_tile_calls:
  "pass1_tile r c opts v b s = Inr s' \<Longrightarrow>
     calls s' = calls s @ [Call_compute_runoff_and_asat v b, Call_wrap_compute_zwt v b]"
  "pass1_tile r c opts v b s = Inl e \<Longrightarrow> calls (snd e) = calls s"
proof -
  have bo: "buffers_only v b s (final_vars (snapshot c opts v b s))"
    by (rule snapshot_buffers_only)
  show "pass1_tile r c opts v b s = Inr s' \<Longrightarrow>
     calls s' = calls s @ [Call_compute_runoff_and_asat v b, Call_wrap_compute_zwt v b]"
  proof -
    assume run: "pass1_tile r c opts v b s = Inr s'"
    then obtain s1 where s1: "snapshot c opts v b s = Inr s1"
      and s': "s' = runoff_and_zwt r v b s1"
      by (cases "snapshot c opts v b s") (simp_all add: pass1_tile_def)
    have "calls s1 = calls s" using bo s1 by (simp add: final_vars_def buffers_only_def)
    then show ?thesis using s' by (simp add: runoff_and_zwt_def Let_def split: prod.splits)
  qed
  show "pass1_tile r c opts v b s = Inl e \<Longrightarrow> calls (snd e) = calls s"
  proof -
    assume run: "pass1_tile r c opts v b s = Inl e"
    then have "snapshot c opts v b s = Inl e"
      by (cases "snapshot c opts v b s") (simp_all add: pass1_tile_def)
    then show ?thesis using bo by (simp add: final_vars_Inl buffers_only_def)
  qed
qed

lemma pass1_tile_runoff_Inr:
  assumes "pass1_tile r c opts v b s = Inr s'"
  shows "runoff_tiles (calls s') = runoff_tiles (calls s) @ [(v, b)]"
  using pass1_tile_calls(1) [OF assms] by (simp add: runoff_tiles_def)

lemma pass1_tile_runoff_Inl:
  assumes "pass1_tile r c opts v b s = Inl e"
  shows "runoff_tiles (calls (snd e)) = runoff_tiles (calls s)"
  using pass1_tile_calls(2) [OF assms] by simp

lemma pass1_tile_ice:
  "ice_content_tiles (calls (final_vars (pass1_tile r c opts v b s))) =
     ice_content_tiles (calls s)"
proof (cases "pass1_tile r c opts v b s")
  case (Inl e)
  then show ?thesis using pass1_tile_calls(2) [OF Inl] by (simp add: final_vars_Inl)
next
  case (Inr s')
  then show ?thesis using pass1_tile_calls(1) [OF Inr]
    by (simp add: final_vars_Inr ice_content_tiles_def)
qed

text \<open>The write-back of a tile makes no call.\<close>

lemma restore_layer_calls: "calls (final_vars (restore_layer c opts v b l s)) = calls s"
proof (cases "moist_read c v b l s")
  case (Inl e)
  then show ?thesis using moist_read_Inl [OF Inl]
    by (simp add: restore_layer_def final_vars_Inl)
next
  case (Inr x)
  have "calls (final_vars (for_each [0..<Nfrost opts]
            (\<lambda>frost_area s1.
               case ice_read c v b l frost_area s1 of
                 Inl e \<Rightarrow> Inl e
               | Inr y \<Rightarrow> Inr (set_layer_ice v b l frost_area y s1))
            (set_layer_moist v b l x s))) = calls s"
  proof (rule for_each_final_invariant [where P = "\<lambda>u. calls u = calls s"])
    show "calls (set_layer_moist v b l x s) = calls s" by (simp add: set_layer_moist_def)
  next
    fix i and t :: vars assume t: "calls t = calls s"
    show "calls (final_vars (case ice_read c v b l i t of
                 Inl e \<Rightarrow> Inl e
               | Inr y \<Rightarrow> Inr (set_layer_ice v b l i y t))) = calls s"
    proof (cases "ice_read c v b l i t")
      case (Inl e)
      then show ?thesis using ice_read_Inl [OF Inl] t
        by (simp add: final_vars_Inl)
    next
      case (Inr y)
      then show ?thesis using t by (simp add: final_vars_def set_layer_ice_def)
    qed
  qed
  then show ?thesis using Inr by (simp add: restore_layer_def)
qed

lemma restore_calls: "calls (final_vars (restore c opts v b s)) = calls s"
  unfolding restore_def
proof (rule for_each_final_invariant [where P = "\<lambda>u. calls u = calls s"])
  show "calls s = calls s" by simp
next
  fix i and t :: vars assume "calls t = calls s"
  then show "calls (final_vars (restore_layer c opts v b i t)) = calls s"
    by (simp add: restore_layer_calls)
qed

text \<open>What a tile of the second pass adds to the record of calls before its ice content
  routine is called.\<close>

lemma pass2_tile_start_calls:
  "calls (final_vars (pass2_tile_start r c gp opts v b s)) =
     calls s @ (if FIRST_VEG s then [Call_set_node_parameters] else []) @
     (if FULL_ENERGY opts \<or> FROZEN_SOIL opts
      then [Call_distribute_node_moisture_properties v b] else [])"
proof -
  define N where "N = node_parameters r opts s"
  define u where "u = (if FULL_ENERGY opts \<or> FROZEN_SOIL opts
      then node_moisture_written r opts v b N else N)"
  define cs where "cs = calls s @ (if FIRST_VEG s then [Call_set_node_parameters] else []) @
     (if FULL_ENERGY opts \<or> FROZEN_SOIL opts
      then [Call_distribute_node_moisture_properties v b] else [])"
  have N: "calls N = calls s @ (if FIRST_VEG s then [Call_set_node_parameters] else [])"
    by (simp add: N_def node_parameters_def)
  have W: "calls (node_moisture_written r opts v b N) =
      calls N @ [Call_distribute_node_moisture_properties v b]"
    by (simp add: node_moisture_written_def split: prod.splits)
  have u: "calls u = cs" using N W by (simp add: u_def cs_def)
  have nm: "node_moisture r c opts v b N = Inr u \<or>
      (\<exists>m. node_moisture r c opts v b N = Inl (m, u))"
    by (simp add: node_moisture_def log_err_def u_def)
  have ts: "time_step_check r gp opts v b u = Inr u \<or>
      (\<exists>m. time_step_check r gp opts v b u = Inl (m, u))"
    by (simp add: time_step_check_def log_err_def)
  have re: "calls (final_vars (restore c opts v b u)) = cs"
    using restore_calls [of c opts v b u] u by simp
  have st: "pass2_tile_start r c gp opts v b s =
     (case node_moisture r c opts v b N of
        Inl e \<Rightarrow> Inl e
      | Inr s1 \<Rightarrow>
          (case time_step_check r gp opts v b s1 of
             Inl e \<Rightarrow> Inl e
           | Inr s2 \<Rightarrow> restore c opts v b s2))"
    by (simp add: pass2_tile_start_def N_def)
  have "calls (final_vars (pass2_tile_start r c gp opts v b s)) = cs"
    using nm
  proof
    assume "\<exists>m. node_moisture r c opts v b N = Inl (m, u)"
    then obtain m where "node_moisture r c opts v b N = Inl (m, u)" by blast
    then have "final_vars (pass2_tile_start r c gp opts v b s) = u"
      by (simp add: st final_vars_def)
    then show ?thesis using u by simp
  next
    assume a: "node_moisture r c opts v b N = Inr u"
    from ts show ?thesis
    proof
      assume "\<exists>m. time_step_check r gp opts v b u = Inl (m, u)"
      then obtain m where "time_step_check r gp opts v b u = Inl (m, u)" by blast
      then have "final_vars (pass2_tile_start r c gp opts v b s) = u"
        using a by (simp add: st final_vars_def)
      then show ?thesis using u by simp
    next
      assume "time_step_check r gp opts v b u = Inr u"
      then have "final_vars (pass2_tile_start r c gp opts v b s) =
          final_vars (restore c opts v b u)"
        using a by (simp add: st)
      then show ?thesis using re by simp
    qed
  qed
  then show ?thesis by (simp add: cs_def)
qed

lemma pass2_tile_start_tiles:
  "runoff_tiles (calls (final_vars (pass2_tile_start r c gp opts v b s))) =
     runoff_tiles (calls s)"
  "ice_content_tiles (calls (final_vars (pass2_tile_start r c gp opts v b s))) =
     ice_content_tiles (calls s)"
  unfolding pass2_tile_start_calls
  by (simp_all add: runoff_tiles_def ice_content_tiles_def)

lemma ice_content_written_tiles:
  "runoff_tiles (calls (ice_content_written r opts v b s)) = runoff_tiles (calls s)"
  "ice_content_tiles (calls (ice_content_written r opts v b s)) =
     ice_content_tiles (calls s) @ [(v, b)]"
  by (simp_all add: ice_content_written_def runoff_tiles_def ice_content_tiles_def)

lemma fronts_tiles:
  "runoff_tiles (calls (fronts r opts v b s)) = runoff_tiles (calls s)"
  "ice_content_tiles (calls (fronts r opts v b s)) = ice_content_tiles (calls s)"
  by (simp_all add: fronts_def runoff_tiles_def ice_content_tiles_def)

lemma ice_content_cases:
  "ice_content r c opts v b s = Inr (ice_content_written r opts v b s) \<or>
   (\<exists>m. ice_content r c opts v b s = Inl (m, ice_content_written r opts v b s))"
  by (simp add: ice_content_def log_err_def)

text \<open>A tile of the second pass that comes to its end has had its ice content routine
  called, once; one that ends the run has had it called once or not at all. Neither
  calls \<^verbatim>\<open>compute_runoff_and_asat\<close>.\<close>

lemma pass2_tile_ice_Inr:
  assumes run: "pass2_tile r c gp opts v b s = Inr s'"
  shows "ice_content_tiles (calls s') = ice_content_tiles (calls s) @ [(v, b)]"
proof -
  obtain s3 where s3: "pass2_tile_start r c gp opts v b s = Inr s3"
    using run by (cases "pass2_tile_start r c gp opts v b s") (simp_all add: pass2_tile_def)
  have "ice_content r c opts v b s3 = Inr (ice_content_written r opts v b s3)"
    using ice_content_cases [of r c opts v b s3] run s3 by (auto simp: pass2_tile_def)
  then have "s' = fronts r opts v b (ice_content_written r opts v b s3)"
    using run s3 by (simp add: pass2_tile_def)
  moreover have "ice_content_tiles (calls s3) = ice_content_tiles (calls s)"
    using pass2_tile_start_tiles(2) [of r c gp opts v b s] s3 by (simp add: final_vars_def)
  ultimately show ?thesis by (simp add: fronts_tiles ice_content_written_tiles)
qed

lemma pass2_tile_ice_Inl:
  assumes run: "pass2_tile r c gp opts v b s = Inl e"
  shows "ice_content_tiles (calls (snd e)) = ice_content_tiles (calls s) \<or>
     ice_content_tiles (calls (snd e)) = ice_content_tiles (calls s) @ [(v, b)]"
proof (cases "pass2_tile_start r c gp opts v b s")
  case (Inl e1)
  then have "e1 = e" using run by (simp add: pass2_tile_def)
  then have "final_vars (pass2_tile_start r c gp opts v b s) = snd e"
    using Inl by (simp add: final_vars_Inl)
  then show ?thesis using pass2_tile_start_tiles(2) [of r c gp opts v b s] by simp
next
  case (Inr s3)
  then have "ice_content r c opts v b s3 = Inl e"
    using run by (cases "ice_content r c opts v b s3") (simp_all add: pass2_tile_def)
  then have "snd e = ice_content_written r opts v b s3"
    using ice_content_cases [of r c opts v b s3] by auto
  moreover have "ice_content_tiles (calls s3) = ice_content_tiles (calls s)"
    using pass2_tile_start_tiles(2) [of r c gp opts v b s] Inr by (simp add: final_vars_def)
  ultimately show ?thesis by (simp add: ice_content_written_tiles)
qed

lemma pass2_tile_runoff:
  "runoff_tiles (calls (final_vars (pass2_tile r c gp opts v b s))) = runoff_tiles (calls s)"
proof (cases "pass2_tile_start r c gp opts v b s")
  case (Inl e1)
  then have "final_vars (pass2_tile r c gp opts v b s) =
      final_vars (pass2_tile_start r c gp opts v b s)"
    by (simp add: pass2_tile_def)
  then show ?thesis by (simp add: pass2_tile_start_tiles)
next
  case (Inr s3)
  have s3: "runoff_tiles (calls s3) = runoff_tiles (calls s)"
    using pass2_tile_start_tiles(1) [of r c gp opts v b s] Inr by (simp add: final_vars_def)
  from ice_content_cases [of r c opts v b s3] show ?thesis
  proof
    assume "ice_content r c opts v b s3 = Inr (ice_content_written r opts v b s3)"
    then have "final_vars (pass2_tile r c gp opts v b s) =
        fronts r opts v b (ice_content_written r opts v b s3)"
      using Inr by (simp add: pass2_tile_def final_vars_def)
    then show ?thesis using s3 by (simp add: fronts_tiles ice_content_written_tiles)
  next
    assume "\<exists>m. ice_content r c opts v b s3 = Inl (m, ice_content_written r opts v b s3)"
    then obtain m where
      "ice_content r c opts v b s3 = Inl (m, ice_content_written r opts v b s3)" by blast
    then have "final_vars (pass2_tile r c gp opts v b s) = ice_content_written r opts v b s3"
      using Inr by (simp add: pass2_tile_def final_vars_def)
    then show ?thesis using s3 by (simp add: ice_content_written_tiles)
  qed
qed

text \<open>A loop over tiles whose body is recorded for its tile once when it comes to its end,
  and once or not at all when it ends the run, is recorded for the tiles in their
  order, as far as it got.\<close>

lemma tiles_visited:
  fixes tile :: "nat \<Rightarrow> nat \<Rightarrow> vars \<Rightarrow> outcome"
  assumes ok: "\<And>v b s s'. tile v b s = Inr s' \<Longrightarrow> proj (calls s') = proj (calls s) @ [(v, b)]"
    and bad: "\<And>v b s e. tile v b s = Inl e \<Longrightarrow>
        proj (calls (snd e)) = proj (calls s) \<or> proj (calls (snd e)) = proj (calls s) @ [(v, b)]"
  shows "case for_each ts (\<lambda>(v, b). tile v b) s of
           Inr s' \<Rightarrow> proj (calls s') = proj (calls s) @ ts
         | Inl e \<Rightarrow> (\<exists>n. proj (calls (snd e)) = proj (calls s) @ take n ts)"
proof (induction ts arbitrary: s)
  case Nil
  then show ?case by simp
next
  case (Cons t ts)
  obtain v b where t: "t = (v, b)" by (cases t)
  show ?case
  proof (cases "tile v b s")
    case (Inl e)
    have "proj (calls (snd e)) = proj (calls s) @ take 0 (t # ts) \<or>
        proj (calls (snd e)) = proj (calls s) @ take 1 (t # ts)"
      using bad [OF Inl] t by simp
    then have "\<exists>n. proj (calls (snd e)) = proj (calls s) @ take n (t # ts)" by blast
    then show ?thesis using Inl t by simp
  next
    case (Inr s1)
    note s1 = ok [OF Inr]
    show ?thesis
    proof (cases "for_each ts (\<lambda>(v, b). tile v b) s1")
      case (Inl e)
      then obtain n where "proj (calls (snd e)) = proj (calls s1) @ take n ts"
        using Cons.IH [of s1] by auto
      then have "proj (calls (snd e)) = proj (calls s) @ take (Suc n) (t # ts)"
        using s1 t by simp
      then have "\<exists>n. proj (calls (snd e)) = proj (calls s) @ take n (t # ts)" by blast
      then show ?thesis using Inl \<open>tile v b s = Inr s1\<close> t by simp
    next
      case (Inr s')
      then have "proj (calls s') = proj (calls s1) @ ts"
        using Cons.IH [of s1] by simp
      then show ?thesis using Inr \<open>tile v b s = Inr s1\<close> s1 t by simp
    qed
  qed
qed

lemma tiles_not_visited:
  fixes tile :: "nat \<Rightarrow> nat \<Rightarrow> vars \<Rightarrow> outcome"
  assumes "\<And>v b s. proj (calls (final_vars (tile v b s))) = proj (calls s)"
  shows "proj (calls (final_vars (for_each ts (\<lambda>(v, b). tile v b) s))) = proj (calls s)"
proof (rule for_each_final_invariant [where P = "\<lambda>u. proj (calls u) = proj (calls s)"])
  show "proj (calls s) = proj (calls s)" by simp
next
  fix i :: "nat \<times> nat" and u :: vars
  assume u: "proj (calls u) = proj (calls s)"
  obtain v b where vb: "i = (v, b)" by (cases i)
  show "proj (calls (final_vars ((\<lambda>(v, b). tile v b) i u))) = proj (calls s)"
    using u vb assms [of v b u] by simp
qed

text \<open>The tiles that the two passes got to, in a run of the routine.\<close>

lemma compute_visits:
  assumes out: "out = compute_derived_state_vars r c gp opts cells energies soil veg_con"
    and ts: "ts = selected_tiles opts veg_con soil"
  shows "(failure_of out \<noteq> Some Out_of_bounds \<longrightarrow>
        runoff_tiles (calls (final_vars out)) = ts) \<and>
     (failure_of out = None \<longrightarrow> ice_content_tiles (calls (final_vars out)) = ts) \<and>
     (\<exists>n. runoff_tiles (calls (final_vars out)) = take n ts) \<and>
     (\<exists>n. ice_content_tiles (calls (final_vars out)) = take n ts)"
proof -
  define s0 where "s0 = entry_vars cells energies soil"
  define p1 where "p1 = for_each ts (\<lambda>(v, b). pass1_tile r c opts v b) s0"
  have c0: "calls s0 = []" and sc0: "soil_con s0 = soil"
    by (simp_all add: s0_def entry_vars_def)
  have r0: "runoff_tiles (calls s0) = []" and i0: "ice_content_tiles (calls s0) = []"
    by (simp_all add: c0 runoff_tiles_def ice_content_tiles_def)
  have v1: "case p1 of
           Inr s' \<Rightarrow> runoff_tiles (calls s') = runoff_tiles (calls s0) @ ts
         | Inl e \<Rightarrow> (\<exists>n. runoff_tiles (calls (snd e)) = runoff_tiles (calls s0) @ take n ts)"
    unfolding p1_def
    by (rule tiles_visited [where tile = "pass1_tile r c opts" and proj = runoff_tiles])
      (erule pass1_tile_runoff_Inr, rule disjI1, erule pass1_tile_runoff_Inl)
  have i1: "ice_content_tiles (calls (final_vars p1)) = ice_content_tiles (calls s0)"
    unfolding p1_def
    by (rule tiles_not_visited [where tile = "pass1_tile r c opts" and proj = ice_content_tiles])
      (rule pass1_tile_ice)
  have o1: "out = (case p1 of Inl e \<Rightarrow> Inl e
      | Inr s \<Rightarrow> for_each ts (\<lambda>(v, b). pass2_tile r c gp opts v b) (s\<lparr>FIRST_VEG := True\<rparr>))"
    unfolding out p1_def ts s0_def by (rule compute_tiles)
  show ?thesis
  proof (cases p1)
    case (Inl e)
    have o: "out = Inl e" using o1 Inl by simp
    have "pass1 r c opts veg_con s0 = Inl e"
      using Inl by (simp add: pass1_tiles sc0 p1_def ts)
    then have "fst e = Out_of_bounds"
      using pass1_failure [where r = r and c = c and opts = opts and veg_con = veg_con
          and s = s0] by simp
    then have f: "failure_of out = Some Out_of_bounds" by (simp add: o failure_of_Inl)
    have fv: "final_vars out = snd e" by (simp add: o final_vars_Inl)
    have A: "\<exists>n. runoff_tiles (calls (final_vars out)) = take n ts"
      unfolding fv using v1 Inl r0 by simp
    have "ice_content_tiles (calls (final_vars out)) = take 0 ts"
      unfolding fv using i1 Inl i0 by (simp add: final_vars_Inl)
    then have B: "\<exists>n. ice_content_tiles (calls (final_vars out)) = take n ts" by blast
    show ?thesis using f A B by simp
  next
    case (Inr s1)
    define s2 where "s2 = s1\<lparr>FIRST_VEG := True\<rparr>"
    define p2 where "p2 = for_each ts (\<lambda>(v, b). pass2_tile r c gp opts v b) s2"
    have o: "out = p2" using o1 Inr by (simp add: p2_def s2_def)
    have r1: "runoff_tiles (calls s2) = ts" using v1 Inr r0 by (simp add: s2_def)
    have i2: "ice_content_tiles (calls s2) = []"
      using i1 Inr i0 by (simp add: s2_def final_vars_Inr)
    have "runoff_tiles (calls (final_vars p2)) = runoff_tiles (calls s2)"
      unfolding p2_def
      by (rule tiles_not_visited [where tile = "pass2_tile r c gp opts" and proj = runoff_tiles])
        (rule pass2_tile_runoff)
    then have R: "runoff_tiles (calls (final_vars out)) = ts" using r1 o by simp
    have v2: "case p2 of
           Inr s' \<Rightarrow> ice_content_tiles (calls s') = ice_content_tiles (calls s2) @ ts
         | Inl e \<Rightarrow> (\<exists>n. ice_content_tiles (calls (snd e)) =
              ice_content_tiles (calls s2) @ take n ts)"
      unfolding p2_def
      by (rule tiles_visited [where tile = "pass2_tile r c gp opts"
            and proj = ice_content_tiles])
        (erule pass2_tile_ice_Inr, erule pass2_tile_ice_Inl)
    have I: "failure_of out = None \<longrightarrow> ice_content_tiles (calls (final_vars out)) = ts"
      using v2 i2 o
      by (cases p2) (simp_all add: failure_of_Inl failure_of_Inr final_vars_Inr)
    have P: "\<exists>n. ice_content_tiles (calls (final_vars out)) = take n ts"
    proof (cases p2)
      case (Inl e2)
      then have "final_vars out = snd e2" by (simp add: o final_vars_Inl)
      then show ?thesis using v2 Inl i2 by simp
    next
      case (Inr s')
      then have "ice_content_tiles (calls (final_vars out)) = take (length ts) ts"
        using v2 i2 o by (simp add: final_vars_Inr)
      then show ?thesis by blast
    qed
    have "runoff_tiles (calls (final_vars out)) = take (length ts) ts" using R by simp
    then have Q: "\<exists>n. runoff_tiles (calls (final_vars out)) = take n ts" by blast
    show ?thesis by (intro conjI impI) (rule R, rule I [rule_format], assumption, rule Q, rule P)
  qed
qed

text \<open>
  C4, as stated, fails. In a cell of one vegetation class with a cover fraction of -1
  and two bands with area fractions of -1/2 the weight of both tiles, cover fraction
  times band area fraction, is 1/2, strictly positive, so the enumeration by weight
  holds the tiles \<open>(0, 0)\<close> and \<open>(0, 1)\<close>. The guards of lines 72 and 75, and of lines 107
  and 110, test each fraction by itself: the run comes to its end without a call made
  and with the saturated area and the node moisture of tile \<open>(0, 0)\<close> as they were.
\<close>

theorem tiles_by_weight_counterexample:
  "Cv (ex_veg_con_negative 0) * AreaFract ex_soil_con_negative 0 = 1 / 2 \<and>
   tiles_by_weight (ex_opts False) ex_veg_con_negative ex_soil_con_negative = [(0, 0), (0, 1)] \<and>
   failure_of (compute_derived_state_vars (ex_routines 0) ex_def \<lparr>dt = 1 / 128\<rparr> (ex_opts False)
      ex_cell ex_energy ex_soil_con_negative ex_veg_con_negative) = None \<and>
   calls (final_vars (compute_derived_state_vars (ex_routines 0) ex_def \<lparr>dt = 1 / 128\<rparr>
      (ex_opts False) ex_cell ex_energy ex_soil_con_negative ex_veg_con_negative)) = [] \<and>
   asat (cell (final_vars (compute_derived_state_vars (ex_routines 0) ex_def \<lparr>dt = 1 / 128\<rparr>
      (ex_opts False) ex_cell ex_energy ex_soil_con_negative ex_veg_con_negative)) 0 0) = 0 \<and>
   node_moist (energy (final_vars (compute_derived_state_vars (ex_routines 0) ex_def
      \<lparr>dt = 1 / 128\<rparr> (ex_opts False) ex_cell ex_energy ex_soil_con_negative
      ex_veg_con_negative)) 0 0) 0 = 0 \<and>
   asat (cell (final_vars (ex_run 0 False (1 / 128))) 0 0) = 1 \<and>
   node_moist (energy (final_vars (ex_run 0 False (1 / 128))) 0 0) 0 = 7"
proof -
  have run: "compute_derived_state_vars (ex_routines 0) ex_def \<lparr>dt = 1 / 128\<rparr> (ex_opts False)
      ex_cell ex_energy ex_soil_con_negative ex_veg_con_negative =
      Inr ((entry_vars ex_cell ex_energy ex_soil_con_negative)\<lparr>FIRST_VEG := True\<rparr>)"
    by (simp add: compute_derived_state_vars_def pass1_def pass2_def ex_veg_con_negative_def)
  have w: "Cv (ex_veg_con_negative 0) * AreaFract ex_soil_con_negative 0 = 1 / 2"
    by (simp add: ex_veg_con_negative_def ex_soil_con_negative_def)
  have ts: "tiles_by_weight (ex_opts False) ex_veg_con_negative ex_soil_con_negative =
      [(0, 0), (0, 1)]"
    by (simp add: tiles_by_weight_def ex_opts_def ex_veg_con_negative_def
        ex_soil_con_negative_def upt_rec)
  have a: "asat (cell (final_vars (ex_run 0 False (1 / 128))) 0 0) = 1"
    by (simp add: ex_defs run_defs final_vars_def upt_rec Let_def power2_eq_square)
  have m: "node_moist (energy (final_vars (ex_run 0 False (1 / 128))) 0 0) 0 = 7"
    by (simp add: ex_defs run_defs final_vars_def upt_rec Let_def power2_eq_square)
  show ?thesis
    unfolding run
    by (simp add: w ts a m failure_of_Inr final_vars_Inr entry_vars_def ex_cell_def
        ex_energy_def)
qed

text \<open>
  C4, amended. The tiles that the routine processes are the pairs of a vegetation index
  from 0 up to and including \<^verbatim>\<open>Nveg\<close> and a band index below the number of bands whose
  cover fraction is strictly positive and whose band area fraction is strictly
  positive, each tested by itself, and both passes take them vegetation index major,
  band index minor. In a run that does not leave the local arrays the tiles for which
  the first pass called \<^verbatim>\<open>compute_runoff_and_asat\<close> are, in the order of the calls and
  each once, exactly these; in a run that comes to its end the tiles for which the
  second pass called its ice content routine are, in the order of the calls and each
  once, exactly these; in every run the tiles that a pass got to are the first so many
  of them. Where no cover fraction and no band area fraction is negative, these are
  the tiles of strictly positive weight, cover fraction times band area fraction.
\<close>

theorem tiles_processed:
  "(failure_of (compute_derived_state_vars r c gp opts cells energies soil veg_con)
      \<noteq> Some Out_of_bounds \<longrightarrow>
    runoff_tiles (calls (final_vars
        (compute_derived_state_vars r c gp opts cells energies soil veg_con))) =
      selected_tiles opts veg_con soil) \<and>
   (failure_of (compute_derived_state_vars r c gp opts cells energies soil veg_con) = None \<longrightarrow>
    ice_content_tiles (calls (final_vars
        (compute_derived_state_vars r c gp opts cells energies soil veg_con))) =
      selected_tiles opts veg_con soil) \<and>
   runoff_tiles (calls (final_vars
        (compute_derived_state_vars r c gp opts cells energies soil veg_con))) =
     take (length (runoff_tiles (calls (final_vars
        (compute_derived_state_vars r c gp opts cells energies soil veg_con)))))
       (selected_tiles opts veg_con soil) \<and>
   ice_content_tiles (calls (final_vars
        (compute_derived_state_vars r c gp opts cells energies soil veg_con))) =
     take (length (ice_content_tiles (calls (final_vars
        (compute_derived_state_vars r c gp opts cells energies soil veg_con)))))
       (selected_tiles opts veg_con soil) \<and>
   ((\<forall>v. 0 \<le> Cv (veg_con v)) \<and> (\<forall>b. 0 \<le> AreaFract soil b) \<longrightarrow>
    selected_tiles opts veg_con soil = tiles_by_weight opts veg_con soil)"
proof -
  define out where "out = compute_derived_state_vars r c gp opts cells energies soil veg_con"
  define ts where "ts = selected_tiles opts veg_con soil"
  note cv = compute_visits [OF out_def ts_def]
  obtain n where "runoff_tiles (calls (final_vars out)) = take n ts"
    using cv by blast
  then have a: "runoff_tiles (calls (final_vars out)) =
      take (length (runoff_tiles (calls (final_vars out)))) ts"
    by (rule take_length_take)
  obtain k where "ice_content_tiles (calls (final_vars out)) = take k ts"
    using cv by blast
  then have b: "ice_content_tiles (calls (final_vars out)) =
      take (length (ice_content_tiles (calls (final_vars out)))) ts"
    by (rule take_length_take)
  have w: "(\<forall>v. 0 \<le> Cv (veg_con v)) \<and> (\<forall>b. 0 \<le> AreaFract soil b) \<longrightarrow>
      ts = tiles_by_weight opts veg_con soil"
    unfolding ts_def
    using tiles_by_weight_selected [where veg_con = veg_con and sc = soil and opts = opts]
    by simp
  have "(failure_of out \<noteq> Some Out_of_bounds \<longrightarrow> runoff_tiles (calls (final_vars out)) = ts) \<and>
     (failure_of out = None \<longrightarrow> ice_content_tiles (calls (final_vars out)) = ts) \<and>
     runoff_tiles (calls (final_vars out)) =
       take (length (runoff_tiles (calls (final_vars out)))) ts \<and>
     ice_content_tiles (calls (final_vars out)) =
       take (length (ice_content_tiles (calls (final_vars out)))) ts \<and>
     ((\<forall>v. 0 \<le> Cv (veg_con v)) \<and> (\<forall>b. 0 \<le> AreaFract soil b) \<longrightarrow>
      ts = tiles_by_weight opts veg_con soil)"
    by (intro conjI) (rule cv [THEN conjunct1], rule cv [THEN conjunct2, THEN conjunct1],
        rule a, rule b, rule w)
  then show ?thesis unfolding out_def ts_def .
qed

theorem tiles_processed_witness:
  "failure_of (ex_run 0 False (1 / 128)) = None \<and>
   selected_tiles (ex_opts False) ex_veg_con ex_soil_con = [(0, 0), (0, 1)] \<and>
   runoff_tiles (calls (final_vars (ex_run 0 False (1 / 128)))) = [(0, 0), (0, 1)] \<and>
   ice_content_tiles (calls (final_vars (ex_run 0 False (1 / 128)))) = [(0, 0), (0, 1)] \<and>
   (\<forall>v. 0 \<le> Cv (ex_veg_con v)) \<and> (\<forall>b. 0 \<le> AreaFract ex_soil_con b) \<and>
   tiles_by_weight (ex_opts False) ex_veg_con ex_soil_con = [(0, 0), (0, 1)] \<and>
   failure_of (ex_run 0 False 1) =
     Some (Exit_failure (Err_time_step 1 (1 / 8) 2 1 (Finite (1 / 64)))) \<and>
   runoff_tiles (calls (final_vars (ex_run 0 False 1))) = [(0, 0), (0, 1)] \<and>
   ice_content_tiles (calls (final_vars (ex_run 0 False 1))) = []"
proof -
  have f: "failure_of (ex_run 0 False (1 / 128)) = None"
    by (simp add: ex_defs run_defs failure_of_def upt_rec Let_def power2_eq_square)
  have g: "failure_of (ex_run 0 False 1) =
     Some (Exit_failure (Err_time_step 1 (1 / 8) 2 1 (Finite (1 / 64))))"
    by (simp add: ex_defs run_defs failure_of_def upt_rec Let_def power2_eq_square)
  have ts: "selected_tiles (ex_opts False) ex_veg_con ex_soil_con = [(0, 0), (0, 1)]"
    by (simp add: selected_tiles_def ex_opts_def ex_veg_con_def ex_soil_con_def upt_rec)
  have h: "(\<forall>v. 0 \<le> Cv (ex_veg_con v)) \<and> (\<forall>b. 0 \<le> AreaFract ex_soil_con b)"
    by (simp add: ex_veg_con_def ex_soil_con_def)
  have i: "ice_content_tiles (calls (final_vars (ex_run 0 False 1))) = []"
    by (simp add: ex_defs run_defs final_vars_def ice_content_tiles_def upt_rec Let_def
        power2_eq_square)
  note th = tiles_processed [where r = "ex_routines 0" and c = ex_def
      and gp = "\<lparr>dt = 1 / 128\<rparr>" and opts = "ex_opts False" and cells = ex_cell
      and energies = ex_energy and soil = ex_soil_con and veg_con = ex_veg_con,
      folded ex_run_def, unfolded ts]
  note th1 = tiles_processed [where r = "ex_routines 0" and c = ex_def
      and gp = "\<lparr>dt = 1\<rparr>" and opts = "ex_opts False" and cells = ex_cell
      and energies = ex_energy and soil = ex_soil_con and veg_con = ex_veg_con,
      folded ex_run_def, unfolded ts]
  have r: "runoff_tiles (calls (final_vars (ex_run 0 False (1 / 128)))) = [(0, 0), (0, 1)]"
    using th [THEN conjunct1] f by simp
  have ic: "ice_content_tiles (calls (final_vars (ex_run 0 False (1 / 128)))) = [(0, 0), (0, 1)]"
    using th [THEN conjunct2, THEN conjunct1] f by simp
  have w: "tiles_by_weight (ex_opts False) ex_veg_con ex_soil_con = [(0, 0), (0, 1)]"
    using th [THEN conjunct2, THEN conjunct2, THEN conjunct2, THEN conjunct2] h by simp
  have r1: "runoff_tiles (calls (final_vars (ex_run 0 False 1))) = [(0, 0), (0, 1)]"
    using th1 [THEN conjunct1] g by simp
  show ?thesis
    by (intro conjI) (rule f, rule ts, rule r, rule ic, rule h [THEN conjunct1],
        rule h [THEN conjunct2], rule w, rule g, rule r1, rule i)
qed

text \<open>
  C5. A tile whose cover fraction or band area fraction is not strictly positive is
  not written: its cell structure (saturated area, water table, layer moisture and
  ice) and its energy structure (node moisture, ice, conductivity, heat capacity and
  front depths) are, wherever the run ends, what they were on entry.
\<close>

theorem unselected_tile_untouched:
  assumes "Cv (veg_con v) \<le> 0 \<or> AreaFract soil b \<le> 0"
  shows "cell (final_vars
            (compute_derived_state_vars r c gp opts cells energies soil veg_con)) v b
           = cells v b \<and>
         energy (final_vars
            (compute_derived_state_vars r c gp opts cells energies soil veg_con)) v b
           = energies v b"
proof -
  let ?ts = "selected_tiles opts veg_con soil"
  let ?s0 = "entry_vars cells energies soil"
  let ?p1 = "for_each ?ts (\<lambda>(v, b). pass1_tile r c opts v b) ?s0"
  have out: "(v, b) \<notin> set ?ts" using assms by (auto simp: selected_tiles_set)
  have k1: "row_kept v b ?s0 (final_vars ?p1)"
    using pass1_tile_row_kept out by (rule tiles_row_kept)
  have "row_kept v b ?s0
      (final_vars (compute_derived_state_vars r c gp opts cells energies soil veg_con))"
  proof (cases ?p1)
    case (Inl e)
    then show ?thesis using k1 by (simp add: compute_tiles)
  next
    case (Inr s1)
    have "row_kept v b s1 (s1\<lparr>FIRST_VEG := True\<rparr>)" by (simp add: row_kept_def)
    moreover have "row_kept v b (s1\<lparr>FIRST_VEG := True\<rparr>)
        (final_vars (for_each ?ts (\<lambda>(v, b). pass2_tile r c gp opts v b)
           (s1\<lparr>FIRST_VEG := True\<rparr>)))"
      using pass2_tile_row_kept out by (rule tiles_row_kept)
    ultimately have "row_kept v b s1
        (final_vars (for_each ?ts (\<lambda>(v, b). pass2_tile r c gp opts v b)
           (s1\<lparr>FIRST_VEG := True\<rparr>)))"
      by (rule row_kept_trans)
    moreover have "row_kept v b ?s0 s1" using k1 Inr by (simp add: final_vars_def)
    ultimately show ?thesis using Inr by (simp add: compute_tiles row_kept_trans)
  qed
  then show ?thesis by (simp add: row_kept_def entry_vars_def)
qed

theorem unselected_tile_untouched_witness:
  "(Cv (ex_veg_con 1) \<le> 0 \<or> AreaFract ex_soil_con 0 \<le> 0) \<and>
   cell (final_vars (ex_run 0 False (1 / 128))) 1 0 = ex_cell 1 0 \<and>
   energy (final_vars (ex_run 0 False (1 / 128))) 1 0 = ex_energy 1 0 \<and>
   asat (cell (final_vars (ex_run 0 False (1 / 128))) 0 0) = 1 \<and>
   asat (ex_cell 0 0) = 0"
proof -
  have h: "Cv (ex_veg_con 1) \<le> 0 \<or> AreaFract ex_soil_con 0 \<le> 0"
    by (simp add: ex_veg_con_def)
  have "asat (cell (final_vars (ex_run 0 False (1 / 128))) 0 0) = 1"
    by (simp add: ex_defs run_defs final_vars_def upt_rec Let_def power2_eq_square)
  then show ?thesis
    using h unselected_tile_untouched [where veg_con = ex_veg_con and v = 1
        and soil = ex_soil_con and b = 0 and r = "ex_routines 0" and c = ex_def
        and gp = "\<lparr>dt = 1 / 128\<rparr>" and opts = "ex_opts False" and cells = ex_cell
        and energies = ex_energy, OF h]
    by (simp add: ex_run_def ex_cell_def)
qed

lemma selected_in_extents:
  assumes "vegetat_type_num (veg_con 0) + 1 \<le> MAX_VEG c" and "SNOW_BAND opts \<le> MAX_BANDS c"
    and "Nlayer opts \<le> MAX_LAYERS c" and "Nfrost opts \<le> MAX_FROST_AREAS c"
  shows "\<forall>t\<in>set (selected_tiles opts veg_con sc). in_extents c opts (fst t) (snd t)"
proof
  fix t assume "t \<in> set (selected_tiles opts veg_con sc)"
  then have "(fst t, snd t) \<in> set (selected_tiles opts veg_con sc)" by simp
  then have "fst t \<le> vegetat_type_num (veg_con 0) \<and> snd t < SNOW_BAND opts"
    unfolding selected_tiles_set by simp
  then show "in_extents c opts (fst t) (snd t)"
    using assms by (simp add: in_extents_def)
qed

text \<open>
  C9. The routine does not compare an index with an extent of its local arrays
  \<^verbatim>\<open>moist\<close> and \<^verbatim>\<open>ice\<close>. If \<^verbatim>\<open>Nveg + 1\<close> is at most \<^verbatim>\<open>MAX_VEG\<close>, the number of snow bands at
  most \<^verbatim>\<open>MAX_BANDS\<close>, the number of layers at most \<^verbatim>\<open>MAX_LAYERS\<close> and the number of frost
  areas at most \<^verbatim>\<open>MAX_FROST_AREAS\<close>, then no run indexes either array outside its
  extents, whatever the routines called do.
\<close>

theorem local_arrays_in_bounds:
  assumes "vegetat_type_num (veg_con 0) + 1 \<le> MAX_VEG c"
    and "SNOW_BAND opts \<le> MAX_BANDS c"
    and "Nlayer opts \<le> MAX_LAYERS c"
    and "Nfrost opts \<le> MAX_FROST_AREAS c"
  shows "failure_of (compute_derived_state_vars r c gp opts cells energies soil veg_con)
           \<noteq> Some Out_of_bounds"
proof (cases "compute_derived_state_vars r c gp opts cells energies soil veg_con")
  case (Inl e)
  have "\<exists>m. fst e = Exit_failure m"
    using compute_failure [OF Inl]
      selected_in_extents [where veg_con = veg_con and c = c and opts = opts, OF assms]
    by blast
  then show ?thesis using Inl by (auto simp: failure_of_Inl)
next
  case (Inr s)
  then show ?thesis by (simp add: failure_of_Inr)
qed

theorem local_arrays_in_bounds_witness:
  "vegetat_type_num (ex_veg_con 0) + 1 \<le> MAX_VEG ex_def \<and>
   SNOW_BAND (ex_opts False) \<le> MAX_BANDS ex_def \<and>
   Nlayer (ex_opts False) \<le> MAX_LAYERS ex_def \<and>
   Nfrost (ex_opts False) \<le> MAX_FROST_AREAS ex_def \<and>
   failure_of (ex_run 0 False (1 / 128)) \<noteq> Some Out_of_bounds"
proof -
  have h1: "vegetat_type_num (ex_veg_con 0) + 1 \<le> MAX_VEG ex_def"
    by (simp add: ex_veg_con_def ex_def_def)
  have h2: "SNOW_BAND (ex_opts False) \<le> MAX_BANDS ex_def"
    by (simp add: ex_opts_def ex_def_def)
  have h3: "Nlayer (ex_opts False) \<le> MAX_LAYERS ex_def"
    by (simp add: ex_opts_def ex_def_def)
  have h4: "Nfrost (ex_opts False) \<le> MAX_FROST_AREAS ex_def"
    by (simp add: ex_opts_def ex_def_def)
  show ?thesis
    unfolding ex_run_def
    by (intro conjI)
       (rule h1, rule h2, rule h3, rule h4,
        rule local_arrays_in_bounds [where veg_con = ex_veg_con and c = ex_def
          and opts = "ex_opts False", OF h1 h2 h3 h4])
qed

text \<open>With room for one layer only, the run of the cell with two layers leaves the
  array \<^verbatim>\<open>moist\<close> in the first pass: nothing in the routine stops it.\<close>

lemma extents_not_checked:
  "failure_of (compute_derived_state_vars (ex_routines 0) (ex_def\<lparr>MAX_LAYERS := 1\<rparr>)
      \<lparr>dt = 1 / 128\<rparr> (ex_opts False) ex_cell ex_energy ex_soil_con ex_veg_con)
     = Some Out_of_bounds"
  by (simp add: ex_defs run_defs failure_of_def upt_rec Let_def)

text \<open>
  C10. The second pass reads an entry of the local arrays only for a tile that passed
  the two guards, and that tile passed the same guards in the first pass, which wrote
  the entry: no run reads an entry of the local arrays that was not written. Between
  the passes the area fractions are as on entry (the cover fractions are not in reach
  of the routine), and after the first pass the rows of every tile that passes the
  guards are written, for all layers and frost areas.
\<close>

theorem no_read_before_write:
  "failure_of (compute_derived_state_vars r c gp opts cells energies soil veg_con)
     \<noteq> Some Uninitialised_read \<and>
   (\<forall>s1. pass1 r c opts veg_con (entry_vars cells energies soil) = Inr s1 \<longrightarrow>
      AreaFract (soil_con s1) = AreaFract soil \<and>
      (\<forall>t\<in>set (selected_tiles opts veg_con soil). filled opts (fst t) (snd t) s1))"
proof
  show "failure_of (compute_derived_state_vars r c gp opts cells energies soil veg_con)
     \<noteq> Some Uninitialised_read"
  proof (cases "compute_derived_state_vars r c gp opts cells energies soil veg_con")
    case (Inl e)
    have "fst e \<noteq> Uninitialised_read" using compute_failure [OF Inl] by auto
    then show ?thesis using Inl by (simp add: failure_of_Inl)
  next
    case (Inr s)
    then show ?thesis by (simp add: failure_of_Inr)
  qed
next
  let ?s0 = "entry_vars cells energies soil"
  have e0: "soil_con ?s0 = soil" by (simp add: entry_vars_def)
  show "\<forall>s1. pass1 r c opts veg_con ?s0 = Inr s1 \<longrightarrow>
      AreaFract (soil_con s1) = AreaFract soil \<and>
      (\<forall>t\<in>set (selected_tiles opts veg_con soil). filled opts (fst t) (snd t) s1)"
  proof (intro allI impI conjI ballI)
    fix s1 assume p1: "pass1 r c opts veg_con ?s0 = Inr s1"
    show "AreaFract (soil_con s1) = AreaFract soil"
      using pass1_Inr_keeps(1) [OF p1] e0 by simp
    fix t assume "t \<in> set (selected_tiles opts veg_con soil)"
    then have "(fst t, snd t) \<in> set (selected_tiles opts veg_con (soil_con ?s0))"
      using e0 by simp
    then show "filled opts (fst t) (snd t) s1" by (rule pass1_filled [OF p1])
  qed
qed

theorem no_read_before_write_witness:
  "failure_of (ex_run 0 False (1 / 128)) \<noteq> Some Uninitialised_read \<and>
   failure_of (ex_run 0 False (1 / 128)) = None \<and>
   moist_buf (final_vars (ex_run 0 False (1 / 128))) (0, 1, 1) = Some 3 \<and>
   moist_buf (final_vars (ex_run 0 False (1 / 128))) (1, 0, 0) = None"
proof -
  have "failure_of (ex_run 0 False (1 / 128)) = None"
    by (simp add: ex_defs run_defs failure_of_def upt_rec Let_def power2_eq_square)
  moreover have "moist_buf (final_vars (ex_run 0 False (1 / 128))) (0, 1, 1) = Some 3"
    by (simp add: ex_defs run_defs final_vars_def upt_rec Let_def power2_eq_square)
  moreover have "moist_buf (final_vars (ex_run 0 False (1 / 128))) (1, 0, 0) = None"
    by (simp add: ex_defs run_defs final_vars_def upt_rec Let_def power2_eq_square)
  ultimately show ?thesis
    using no_read_before_write [of "ex_routines 0" ex_def "\<lparr>dt = 1 / 128\<rparr>" "ex_opts False"
        ex_cell ex_energy ex_soil_con ex_veg_con]
    by (simp add: ex_run_def)
qed

text \<open>
  C7. When the second pass has come to a tile that passed the guards and has done all
  that comes before the ice content routine, every layer of the tile holds the
  moisture, and for every frost area the ice content, that the tile held on entry to
  the routine: the values that the first pass copied before it changed anything of
  the tile.
\<close>

theorem write_back_is_snapshot:
  assumes p1: "pass1 r c opts veg_con (entry_vars cells energies soil) = Inr s1"
    and sel: "selected_tiles opts veg_con soil = pre @ (v, b) # post"
    and reach: "for_each pre (\<lambda>(v, b). pass2_tile r c gp opts v b) (s1\<lparr>FIRST_VEG := True\<rparr>)
                  = Inr s2"
    and start: "pass2_tile_start r c gp opts v b s2 = Inr s3"
    and l: "l < Nlayer opts"
  shows "moist (layer (cell s3 v b) l) = moist (layer (cells v b) l) \<and>
         (\<forall>f<Nfrost opts. ice (layer (cell s3 v b) l) f = ice (layer (cells v b) l) f)"
proof -
  let ?s0 = "entry_vars cells energies soil"
  have e0: "soil_con ?s0 = soil" "cell ?s0 = cells" by (simp_all add: entry_vars_def)
  have vb: "(v, b) \<in> set (selected_tiles opts veg_con (soil_con ?s0))"
    using sel e0 by simp
  from pass2_tile_start_Inr [OF start] obtain u where
    u: "restore c opts v b u = Inr s3" "moist_buf u = moist_buf s2" "ice_buf u = ice_buf s2"
    by blast
  have m: "moist_buf u = moist_buf s1" "ice_buf u = ice_buf s1"
    using u reach_buffers [OF reach] by simp_all
  have "Some (moist (layer (cell s3 v b) l)) = Some (moist (layer (cells v b) l))"
    using restore_Inr(1) [OF u(1) l] pass1_buffers(1) [OF p1 vb l] m e0 by simp
  moreover have "\<forall>f<Nfrost opts. ice (layer (cell s3 v b) l) f = ice (layer (cells v b) l) f"
  proof (intro allI impI)
    fix f assume f: "f < Nfrost opts"
    have "Some (ice (layer (cell s3 v b) l) f) = Some (ice (layer (cells v b) l) f)"
      using restore_Inr(2) [OF u(1) l f] pass1_buffers(2) [OF p1 vb l f] m e0 by simp
    then show "ice (layer (cell s3 v b) l) f = ice (layer (cells v b) l) f" by simp
  qed
  ultimately show ?thesis by simp
qed

theorem write_back_is_snapshot_witness:
  "pass1 (ex_routines 0) ex_def (ex_opts False) ex_veg_con
       (entry_vars ex_cell ex_energy ex_soil_con) = Inr ex_after_pass1 \<and>
   selected_tiles (ex_opts False) ex_veg_con ex_soil_con = [] @ (0, 0) # [(0, 1)] \<and>
   for_each [] (\<lambda>(v, b). pass2_tile (ex_routines 0) ex_def \<lparr>dt = 1 / 128\<rparr> (ex_opts False) v b)
       (ex_after_pass1\<lparr>FIRST_VEG := True\<rparr>) = Inr (ex_after_pass1\<lparr>FIRST_VEG := True\<rparr>) \<and>
   pass2_tile_start (ex_routines 0) ex_def \<lparr>dt = 1 / 128\<rparr> (ex_opts False) 0 0
       (ex_after_pass1\<lparr>FIRST_VEG := True\<rparr>) = Inr ex_before_ice \<and>
   (1::nat) < Nlayer (ex_opts False) \<and>
   moist (layer (cell ex_after_pass1 0 0) 1) = 0 \<and>
   moist (layer (cell ex_before_ice 0 0) 1) = 3 \<and>
   moist (layer (ex_cell 0 0) 1) = 3 \<and>
   ice (layer (cell ex_before_ice 0 0) 1) 0 = 1"
proof -
  have p1: "pass1 (ex_routines 0) ex_def (ex_opts False) ex_veg_con
       (entry_vars ex_cell ex_energy ex_soil_con) = Inr ex_after_pass1"
    unfolding ex_after_pass1_def
    by (rule Inr_final_vars) (simp add: ex_defs run_defs failure_of_def upt_rec Let_def)
  have sel: "selected_tiles (ex_opts False) ex_veg_con ex_soil_con = [] @ (0, 0) # [(0, 1)]"
    by (simp add: ex_defs selected_tiles_def upt_rec)
  have reach: "for_each [] (\<lambda>(v, b). pass2_tile (ex_routines 0) ex_def \<lparr>dt = 1 / 128\<rparr>
       (ex_opts False) v b) (ex_after_pass1\<lparr>FIRST_VEG := True\<rparr>)
         = Inr (ex_after_pass1\<lparr>FIRST_VEG := True\<rparr>)"
    by simp
  have start: "pass2_tile_start (ex_routines 0) ex_def \<lparr>dt = 1 / 128\<rparr> (ex_opts False) 0 0
       (ex_after_pass1\<lparr>FIRST_VEG := True\<rparr>) = Inr ex_before_ice"
    unfolding ex_before_ice_def ex_after_pass1_def
    by (rule Inr_final_vars)
       (simp add: ex_defs run_defs failure_of_def final_vars_def upt_rec Let_def
          power2_eq_square)
  have l: "(1::nat) < Nlayer (ex_opts False)" by (simp add: ex_opts_def)
  have before: "moist (layer (cell ex_after_pass1 0 0) 1) = 0"
    unfolding ex_after_pass1_def
    by (simp add: ex_defs run_defs final_vars_def upt_rec Let_def)
  note w = write_back_is_snapshot [OF p1 sel reach start l]
  have "moist (layer (cell ex_before_ice 0 0) 1) = 3" using w by (simp add: ex_cell_def)
  moreover have "ice (layer (cell ex_before_ice 0 0) 1) 0 = 1"
    using w by (simp add: ex_cell_def ex_opts_def)
  moreover have "moist (layer (ex_cell 0 0) 1) = 3" by (simp add: ex_cell_def)
  ultimately show ?thesis using p1 sel reach start l before by blast
qed




text \<open>The two ice content routines end the run in the same way: without frozen soil
  the node moisture routine is not called, and the error of the ice content routine
  is the first.\<close>

lemma ice_content_error_examples:
  "failure_of (compute_derived_state_vars (ex_routines (- 999)) ex_def \<lparr>dt = 1 / 128\<rparr>
      ((ex_opts True)\<lparr>FROZEN_SOIL := False\<rparr>) ex_cell ex_energy ex_soil_con ex_veg_con)
     = Some (Exit_failure Err_quick_flux)"
  "failure_of (compute_derived_state_vars (ex_routines (- 999)) ex_def \<lparr>dt = 1 / 128\<rparr>
      ((ex_opts False)\<lparr>FROZEN_SOIL := False\<rparr>) ex_cell ex_energy ex_soil_con ex_veg_con)
     = Some (Exit_failure Err_ice_content)"
  by (simp_all add: ex_defs run_defs failure_of_def upt_rec Let_def)

lemma restore_not_time_step:
  "\<not> is_time_step_failure (failure_of (restore c opts v b s))"
proof (cases "restore c opts v b s")
  case (Inl e)
  then have "fst e = Out_of_bounds \<or> fst e = Uninitialised_read"
    using restore_failure [where c = c and opts = opts and v = v and b = b and s = s]
    by auto
  then show ?thesis using Inl by (auto simp: failure_of_Inl)
next
  case (Inr s')
  then show ?thesis by (simp add: failure_of_Inr)
qed

lemma ice_content_not_time_step:
  "\<not> is_time_step_failure
       (failure_of (case ice_content r c opts v b s of
                      Inl e \<Rightarrow> Inl e | Inr s4 \<Rightarrow> Inr (fronts r opts v b s4)))"
  by (simp add: ice_content_def log_err_def failure_of_def)

lemma after_restore_not_time_step:
  "\<not> is_time_step_failure
       (failure_of (case restore c opts v b s of
          Inl e \<Rightarrow> Inl e
        | Inr s3 \<Rightarrow>
            (case ice_content r c opts v b s3 of
               Inl e \<Rightarrow> Inl e | Inr s4 \<Rightarrow> Inr (fronts r opts v b s4))))"
proof (cases "restore c opts v b s")
  case (Inl e)
  then show ?thesis
    using restore_not_time_step [where c = c and opts = opts and v = v and b = b and s = s]
    by (simp add: failure_of_Inl)
next
  case (Inr s3)
  then show ?thesis
    using ice_content_not_time_step [where r = r and c = c and opts = opts and v = v
        and b = b and s = s3]
    by simp
qed

lemma pass2_tile_unfold:
  "pass2_tile r c gp opts v b s =
     (case node_moisture r c opts v b (node_parameters r opts s) of
        Inl e \<Rightarrow> Inl e
      | Inr s1 \<Rightarrow>
          (case time_step_check r gp opts v b s1 of
             Inl e \<Rightarrow> Inl e
           | Inr s2 \<Rightarrow>
               (case restore c opts v b s2 of
                  Inl e \<Rightarrow> Inl e
                | Inr s3 \<Rightarrow>
                    (case ice_content r c opts v b s3 of
                       Inl e \<Rightarrow> Inl e | Inr s4 \<Rightarrow> Inr (fronts r opts v b s4)))))"
  by (simp add: pass2_tile_def pass2_tile_start_def split: sum.splits)

lemma time_step_check_failure_of:
  "failure_of (time_step_check r gp opts v b s) =
     (if FROZEN_SOIL opts \<and> \<not> IMPLICIT opts \<and> \<not> QUICK_FLUX opts \<and>
         double_greater r (Finite (dt gp)) (dt_thresh r v b s)
      then Some (Exit_failure
                  (Err_time_step (dt gp) (dz_node (soil_con s) 1) (Cs_node (energy s v b) 1)
                     (kappa_node (energy s v b) 1) (dt_thresh r v b s)))
      else None)"
  by (simp add: time_step_check_def log_err_def failure_of_def)

text \<open>The message of the time step check comes from the time step check alone, and a
  tile gets to the check if the node moisture routine did not report an error.\<close>

lemma pass2_tile_time_step:
  "is_time_step_failure (failure_of (pass2_tile r c gp opts v b s)) \<longleftrightarrow>
     \<not> ((FULL_ENERGY opts \<or> FROZEN_SOIL opts) \<and>
         fst (node_moisture_call r opts v b (node_parameters r opts s)) = ERROR c) \<and>
     is_time_step_failure (failure_of (time_step_check r gp opts v b
        (if FULL_ENERGY opts \<or> FROZEN_SOIL opts
         then node_moisture_written r opts v b (node_parameters r opts s)
         else node_parameters r opts s)))"
proof (cases "(FULL_ENERGY opts \<or> FROZEN_SOIL opts) \<and>
         fst (node_moisture_call r opts v b (node_parameters r opts s)) = ERROR c")
  case True
  then have "node_moisture r c opts v b (node_parameters r opts s) =
      Inl (Exit_failure Err_node_properties,
           node_moisture_written r opts v b (node_parameters r opts s))"
    by (simp add: node_moisture_def log_err_def)
  then have "failure_of (pass2_tile r c gp opts v b s) = Some (Exit_failure Err_node_properties)"
    by (simp add: pass2_tile_unfold failure_of_def)
  then show ?thesis using True by simp
next
  case False
  let ?u = "if FULL_ENERGY opts \<or> FROZEN_SOIL opts
         then node_moisture_written r opts v b (node_parameters r opts s)
         else node_parameters r opts s"
  have nm: "node_moisture r c opts v b (node_parameters r opts s) = Inr ?u"
  proof (cases "FULL_ENERGY opts \<or> FROZEN_SOIL opts")
    case True
    then have "fst (node_moisture_call r opts v b (node_parameters r opts s)) \<noteq> ERROR c"
      using False by blast
    then show ?thesis using True by (simp add: node_moisture_def)
  next
    case False
    then show ?thesis by (simp add: node_moisture_def)
  qed
  show ?thesis
  proof (cases "time_step_check r gp opts v b ?u")
    case (Inl e)
    then have "failure_of (pass2_tile r c gp opts v b s) =
        failure_of (time_step_check r gp opts v b ?u)"
      using nm by (simp add: pass2_tile_unfold failure_of_Inl)
    then show ?thesis using False by simp
  next
    case (Inr s2)
    then have "\<not> is_time_step_failure (failure_of (pass2_tile r c gp opts v b s))"
      using nm after_restore_not_time_step [where c = c and opts = opts and v = v and b = b
          and s = s2 and r = r]
      by (simp add: pass2_tile_unfold)
    moreover have "\<not> is_time_step_failure (failure_of (time_step_check r gp opts v b ?u))"
      using Inr by (simp add: failure_of_Inr)
    ultimately show ?thesis by simp
  qed
qed

text \<open>With a conductivity of zero at node 1 and a heat capacity of 2 the quotient of the
  example arithmetic is the infinity, as that of the machine is, and the check lets
  every time step pass.\<close>

lemma zero_conductivity_passes:
  "time_step_check (ex_routines 0) \<lparr>dt = step\<rparr> (ex_opts False) 0 0
     (entry_vars ex_cell (\<lambda>v b. (ex_energy v b)\<lparr>Cs_node := (\<lambda>n. 2)\<rparr>) ex_soil_con) =
   Inr (entry_vars ex_cell (\<lambda>v b. (ex_energy v b)\<lparr>Cs_node := (\<lambda>n. 2)\<rparr>) ex_soil_con)"
  by (simp add: time_step_check_def dt_thresh_def entry_vars_def ex_defs)

text \<open>
  C2, as stated, fails. In the cell with two tiles frozen soil is enabled, the scheme
  is explicit and quick flux is not in use; for its first tile the node moisture
  routine writes a heat capacity of 2 and a conductivity of 1, the spacing is 1/8, and
  the time step of 1 is greater than the bound, 1/64. When that routine returns
  \<^verbatim>\<open>ERROR\<close>, the run ends with the message of line 149 before the check is come to: the
  message of the check is not given.
\<close>

theorem time_step_check_counterexample:
  "FROZEN_SOIL (ex_opts False) \<and> \<not> IMPLICIT (ex_opts False) \<and> \<not> QUICK_FLUX (ex_opts False) \<and>
   Cs_node (energy (final_vars (ex_run (- 999) False 1)) 0 0) 1 = 2 \<and>
   kappa_node (energy (final_vars (ex_run (- 999) False 1)) 0 0) 1 = 1 \<and>
   dz_node (soil_con (final_vars (ex_run (- 999) False 1))) 1 = 1 / 8 \<and>
   dt_thresh (ex_routines (- 999)) 0 0 (final_vars (ex_run (- 999) False 1)) = Finite (1 / 64) \<and>
   double_greater (ex_routines (- 999)) (Finite 1) (Finite (1 / 64)) \<and>
   failure_of (ex_run (- 999) False 1) = Some (Exit_failure Err_node_properties) \<and>
   \<not> is_time_step_failure (failure_of (ex_run (- 999) False 1))"
  by (simp add: ex_defs run_defs failure_of_def final_vars_def upt_rec Let_def)

text \<open>
  C2, amended. A tile of the second pass ends with the message of the time step check
  exactly when \<^verbatim>\<open>distribute_node_moisture_properties\<close> did not report an error for it, frozen
  soil is enabled, the implicit scheme is not configured, quick flux is not in use,
  and the time step is greater than the bound. The bound is one half times the heat
  capacity at node 1, divided by the thermal conductivity at node 1, times \<^verbatim>\<open>pow\<close> of
  \<^verbatim>\<open>dz_node[1]\<close>, the spacing between the first two nodes, and 2, with the heat capacity and
  conductivity that the node moisture routine has just written; products, quotient,
  \<^verbatim>\<open>pow\<close> and comparison are those of \<^verbatim>\<open>double\<close> arithmetic, in the order of lines 161 to 165.
  The message carries the time step, the spacing, the heat capacity, the conductivity
  and the bound.
\<close>

theorem time_step_check_exact:
  "(is_time_step_failure (failure_of (pass2_tile r c gp opts v b s)) \<longleftrightarrow>
      FROZEN_SOIL opts \<and> \<not> IMPLICIT opts \<and> \<not> QUICK_FLUX opts \<and>
      fst (node_moisture_call r opts v b (node_parameters r opts s)) \<noteq> ERROR c \<and>
      double_greater r (Finite (dt gp))
        (double_times r
           (double_divide r
              (double_times r (Finite (1 / 2))
                 (Finite (Cs_node
                    (energy (node_moisture_written r opts v b (node_parameters r opts s)) v b)
                    1)))
              (Finite (kappa_node
                 (energy (node_moisture_written r opts v b (node_parameters r opts s)) v b) 1)))
           (pow r (Finite (dz_node (soil_con s) 1)) (Finite 2)))) \<and>
   (is_time_step_failure (failure_of (pass2_tile r c gp opts v b s)) \<longrightarrow>
      failure_of (pass2_tile r c gp opts v b s) =
        Some (Exit_failure
          (Err_time_step (dt gp) (dz_node (soil_con s) 1)
             (Cs_node (energy (node_moisture_written r opts v b (node_parameters r opts s)) v b)
                1)
             (kappa_node
                (energy (node_moisture_written r opts v b (node_parameters r opts s)) v b) 1)
             (double_times r
                (double_divide r
                   (double_times r (Finite (1 / 2))
                      (Finite (Cs_node
                         (energy (node_moisture_written r opts v b (node_parameters r opts s))
                            v b) 1)))
                   (Finite (kappa_node
                      (energy (node_moisture_written r opts v b (node_parameters r opts s))
                         v b) 1)))
                (pow r (Finite (dz_node (soil_con s) 1)) (Finite 2))))))"
proof -
  let ?N = "node_parameters r opts s"
  let ?W = "node_moisture_written r opts v b ?N"
  let ?bound = "double_times r
           (double_divide r
              (double_times r (Finite (1 / 2)) (Finite (Cs_node (energy ?W v b) 1)))
              (Finite (kappa_node (energy ?W v b) 1)))
           (pow r (Finite (dz_node (soil_con s) 1)) (Finite 2))"
  have dz: "dz_node (soil_con ?W) = dz_node (soil_con s)"
    using node_moisture_written_only [of v b ?N r opts]
    by (simp add: pass2_only_def node_parameters_frame)
  have th: "dt_thresh r v b ?W = ?bound" by (simp add: dt_thresh_def dz)
  have iff: "is_time_step_failure (failure_of (pass2_tile r c gp opts v b s)) \<longleftrightarrow>
      FROZEN_SOIL opts \<and> \<not> IMPLICIT opts \<and> \<not> QUICK_FLUX opts \<and>
      fst (node_moisture_call r opts v b ?N) \<noteq> ERROR c \<and>
      double_greater r (Finite (dt gp)) ?bound"
  proof (cases "FROZEN_SOIL opts")
    case True
    show ?thesis
      unfolding pass2_tile_time_step
      using True th by (simp add: time_step_check_failure_of)
  next
    case False
    show ?thesis
      unfolding pass2_tile_time_step
      using False by (simp add: time_step_check_failure_of)
  qed
  have msg: "is_time_step_failure (failure_of (pass2_tile r c gp opts v b s)) \<longrightarrow>
      failure_of (pass2_tile r c gp opts v b s) =
        Some (Exit_failure
          (Err_time_step (dt gp) (dz_node (soil_con s) 1) (Cs_node (energy ?W v b) 1)
             (kappa_node (energy ?W v b) 1) ?bound))"
  proof
    assume a: "is_time_step_failure (failure_of (pass2_tile r c gp opts v b s))"
    then have c: "FROZEN_SOIL opts" "\<not> IMPLICIT opts" "\<not> QUICK_FLUX opts"
      "fst (node_moisture_call r opts v b ?N) \<noteq> ERROR c"
      "double_greater r (Finite (dt gp)) ?bound"
      using iff by simp_all
    have nm: "node_moisture r c opts v b ?N = Inr ?W"
      using c(1,4) by (simp add: node_moisture_def)
    have "time_step_check r gp opts v b ?W =
        Inl (Exit_failure
          (Err_time_step (dt gp) (dz_node (soil_con s) 1) (Cs_node (energy ?W v b) 1)
             (kappa_node (energy ?W v b) 1) ?bound), ?W)"
      using c th dz by (simp add: time_step_check_def log_err_def)
    then show "failure_of (pass2_tile r c gp opts v b s) =
        Some (Exit_failure
          (Err_time_step (dt gp) (dz_node (soil_con s) 1) (Cs_node (energy ?W v b) 1)
             (kappa_node (energy ?W v b) 1) ?bound))"
      using nm by (simp add: pass2_tile_unfold failure_of_def)
  qed
  show ?thesis using iff msg by (rule conjI)
qed

theorem time_step_check_exact_witness:
  "is_time_step_failure
     (failure_of (pass2_tile (ex_routines 0) ex_def \<lparr>dt = 1\<rparr> (ex_opts False) 0 0
        (ex_after_pass1\<lparr>FIRST_VEG := True\<rparr>))) \<and>
   failure_of (pass2_tile (ex_routines 0) ex_def \<lparr>dt = 1\<rparr> (ex_opts False) 0 0
        (ex_after_pass1\<lparr>FIRST_VEG := True\<rparr>)) =
     Some (Exit_failure (Err_time_step 1 (1 / 8) 2 1 (Finite (1 / 64)))) \<and>
   \<not> is_time_step_failure
     (failure_of (pass2_tile (ex_routines 0) ex_def \<lparr>dt = 1 / 64\<rparr> (ex_opts False) 0 0
        (ex_after_pass1\<lparr>FIRST_VEG := True\<rparr>))) \<and>
   \<not> is_time_step_failure
     (failure_of (pass2_tile (ex_routines 0) ex_def \<lparr>dt = 1\<rparr> (ex_opts True) 0 0
        (ex_after_pass1\<lparr>FIRST_VEG := True\<rparr>))) \<and>
   \<not> is_time_step_failure
     (failure_of (pass2_tile (ex_routines (- 999)) ex_def \<lparr>dt = 1\<rparr> (ex_opts False) 0 0
        (ex_after_pass1\<lparr>FIRST_VEG := True\<rparr>)))"
proof -
  note a = time_step_check_exact [of "ex_routines 0" ex_def "\<lparr>dt = 1\<rparr>" "ex_opts False" 0 0
      "ex_after_pass1\<lparr>FIRST_VEG := True\<rparr>"]
  note b = time_step_check_exact [of "ex_routines 0" ex_def "\<lparr>dt = 1 / 64\<rparr>" "ex_opts False" 0 0
      "ex_after_pass1\<lparr>FIRST_VEG := True\<rparr>", THEN conjunct1]
  note c = time_step_check_exact [of "ex_routines 0" ex_def "\<lparr>dt = 1\<rparr>" "ex_opts True" 0 0
      "ex_after_pass1\<lparr>FIRST_VEG := True\<rparr>", THEN conjunct1]
  note d = time_step_check_exact [of "ex_routines (- 999)" ex_def "\<lparr>dt = 1\<rparr>" "ex_opts False"
      0 0 "ex_after_pass1\<lparr>FIRST_VEG := True\<rparr>", THEN conjunct1]
  have dz: "dz_node (soil_con ex_after_pass1) = (\<lambda>n. 1 / 8)"
    unfolding ex_after_pass1_def
    using pass1_keeps [of "ex_routines 0" ex_def "ex_opts False" ex_veg_con
        "entry_vars ex_cell ex_energy ex_soil_con"]
    by (simp add: entry_vars_def ex_soil_con_def)
  have fires: "is_time_step_failure
     (failure_of (pass2_tile (ex_routines 0) ex_def \<lparr>dt = 1\<rparr> (ex_opts False) 0 0
        (ex_after_pass1\<lparr>FIRST_VEG := True\<rparr>)))"
    unfolding a [THEN conjunct1]
    by (simp add: dz ex_opts_def ex_routines_def ex_def_def node_moisture_call_def
        node_moisture_written_def upd2_def ex_times_def ex_divide_def ex_pow_def
        ex_greater_def)
  have msg: "failure_of (pass2_tile (ex_routines 0) ex_def \<lparr>dt = 1\<rparr> (ex_opts False) 0 0
        (ex_after_pass1\<lparr>FIRST_VEG := True\<rparr>)) =
     Some (Exit_failure (Err_time_step 1 (1 / 8) 2 1 (Finite (1 / 64))))"
    using a [THEN conjunct2, rule_format, OF fires]
    by (simp add: dz ex_routines_def node_moisture_call_def
        node_moisture_written_def upd2_def ex_times_def ex_divide_def ex_pow_def)
  have rest: "\<not> is_time_step_failure
     (failure_of (pass2_tile (ex_routines 0) ex_def \<lparr>dt = 1 / 64\<rparr> (ex_opts False) 0 0
        (ex_after_pass1\<lparr>FIRST_VEG := True\<rparr>))) \<and>
   \<not> is_time_step_failure
     (failure_of (pass2_tile (ex_routines 0) ex_def \<lparr>dt = 1\<rparr> (ex_opts True) 0 0
        (ex_after_pass1\<lparr>FIRST_VEG := True\<rparr>))) \<and>
   \<not> is_time_step_failure
     (failure_of (pass2_tile (ex_routines (- 999)) ex_def \<lparr>dt = 1\<rparr> (ex_opts False) 0 0
        (ex_after_pass1\<lparr>FIRST_VEG := True\<rparr>)))"
    unfolding b c d
    by (simp add: dz ex_opts_def ex_routines_def ex_def_def node_moisture_call_def
        node_moisture_written_def upd2_def ex_times_def ex_divide_def ex_pow_def
        ex_greater_def)
  show ?thesis using fires msg rest by blast
qed

text \<open>
  C1, as stated, fails. The cell with two tiles runs with frozen soil, the explicit
  scheme and no quick flux; the bound of its first tile is 0.5 * 2 / 1 * pow(0.125, 2),
  that is 1/64. With a time step of 1 the run ends in the time step check of the first
  tile, with the message of the check: the front depths of that tile are not located
  and the node moisture of the second tile, which the run with a time step of 1/128
  sets to 7, is still 0.
\<close>

theorem time_step_diagnostic_counterexample:
  "FROZEN_SOIL (ex_opts False) \<and> \<not> IMPLICIT (ex_opts False) \<and> \<not> QUICK_FLUX (ex_opts False) \<and>
   failure_of (ex_run 0 False 1) =
     Some (Exit_failure (Err_time_step 1 (1 / 8) 2 1 (Finite (1 / 64)))) \<and>
   fdepth (energy (final_vars (ex_run 0 False 1)) 0 0) 0 = 0 \<and>
   node_moist (energy (final_vars (ex_run 0 False 1)) 0 1) 0 = 0 \<and>
   failure_of (ex_run 0 False (1 / 128)) = None \<and>
   fdepth (energy (final_vars (ex_run 0 False (1 / 128))) 0 0) 0 = 9 \<and>
   node_moist (energy (final_vars (ex_run 0 False (1 / 128))) 0 1) 0 = 7"
  by (simp add: ex_defs run_defs failure_of_def final_vars_def upt_rec Let_def)

text \<open>
  C1, amended. Let the second pass have come to a tile that passed the guards, with
  frozen soil enabled, the explicit scheme and no quick flux, and let
  \<^verbatim>\<open>distribute_node_moisture_properties\<close> not have reported an error for the tile. If the
  time step is greater than the bound, as the \<^verbatim>\<open>double\<close> arithmetic of lines 161 to 165
  computes and compares them, the check reports it through \<^verbatim>\<open>log_err\<close> and the run of the
  cell ends there, in the state that the node moisture routine left: the rest of this
  tile and the tiles after it are not processed. If it is not greater (as when the
  bound is an infinity or no number), the check reports nothing and changes nothing,
  and the tile goes on to the write-back of its layers.
\<close>

theorem time_step_check_ends_or_passes:
  assumes p1: "pass1 r c opts veg_con (entry_vars cells energies soil) = Inr s1"
    and sel: "selected_tiles opts veg_con soil = pre @ (v, b) # post"
    and reach: "for_each pre (\<lambda>(v, b). pass2_tile r c gp opts v b) (s1\<lparr>FIRST_VEG := True\<rparr>)
                  = Inr s2"
    and frozen: "FROZEN_SOIL opts" and explicit: "\<not> IMPLICIT opts"
    and full: "\<not> QUICK_FLUX opts"
    and ok: "fst (node_moisture_call r opts v b (node_parameters r opts s2)) \<noteq> ERROR c"
    and u: "u = node_moisture_written r opts v b (node_parameters r opts s2)"
  shows "(double_greater r (Finite (dt gp)) (dt_thresh r v b u) \<longrightarrow>
            compute_derived_state_vars r c gp opts cells energies soil veg_con =
              Inl (Exit_failure
                     (Err_time_step (dt gp) (dz_node (soil_con u) 1) (Cs_node (energy u v b) 1)
                        (kappa_node (energy u v b) 1) (dt_thresh r v b u)), u)) \<and>
         (\<not> double_greater r (Finite (dt gp)) (dt_thresh r v b u) \<longrightarrow>
            time_step_check r gp opts v b u = Inr u \<and>
            pass2_tile_start r c gp opts v b s2 = restore c opts v b u)"
proof -
  have nm: "node_moisture r c opts v b (node_parameters r opts s2) = Inr u"
    using frozen ok u by (simp add: node_moisture_def)
  show ?thesis
  proof (intro conjI impI)
    assume big: "double_greater r (Finite (dt gp)) (dt_thresh r v b u)"
    then have "time_step_check r gp opts v b u =
        Inl (Exit_failure
               (Err_time_step (dt gp) (dz_node (soil_con u) 1) (Cs_node (energy u v b) 1)
                  (kappa_node (energy u v b) 1) (dt_thresh r v b u)), u)"
      using frozen explicit full by (simp add: time_step_check_def log_err_def)
    then have "pass2_tile r c gp opts v b s2 =
        Inl (Exit_failure
               (Err_time_step (dt gp) (dz_node (soil_con u) 1) (Cs_node (energy u v b) 1)
                  (kappa_node (energy u v b) 1) (dt_thresh r v b u)), u)"
      using nm by (simp add: pass2_tile_def pass2_tile_start_def)
    then show "compute_derived_state_vars r c gp opts cells energies soil veg_con =
        Inl (Exit_failure
               (Err_time_step (dt gp) (dz_node (soil_con u) 1) (Cs_node (energy u v b) 1)
                  (kappa_node (energy u v b) 1) (dt_thresh r v b u)), u)"
      using compute_reach [OF p1 sel reach] by simp
  next
    assume small: "\<not> double_greater r (Finite (dt gp)) (dt_thresh r v b u)"
    then show t: "time_step_check r gp opts v b u = Inr u"
      by (simp add: time_step_check_def)
    show "pass2_tile_start r c gp opts v b s2 = restore c opts v b u"
      using nm t by (simp add: pass2_tile_start_def)
  qed
qed

theorem time_step_check_ends_or_passes_witness:
  "pass1 (ex_routines 0) ex_def (ex_opts False) ex_veg_con
       (entry_vars ex_cell ex_energy ex_soil_con) = Inr ex_after_pass1 \<and>
   selected_tiles (ex_opts False) ex_veg_con ex_soil_con = [] @ (0, 0) # [(0, 1)] \<and>
   FROZEN_SOIL (ex_opts False) \<and> \<not> IMPLICIT (ex_opts False) \<and> \<not> QUICK_FLUX (ex_opts False) \<and>
   fst (node_moisture_call (ex_routines 0) (ex_opts False) 0 0
          (node_parameters (ex_routines 0) (ex_opts False)
             (ex_after_pass1\<lparr>FIRST_VEG := True\<rparr>))) \<noteq> ERROR ex_def \<and>
   dt_thresh (ex_routines 0) 0 0
     (node_moisture_written (ex_routines 0) (ex_opts False) 0 0
        (node_parameters (ex_routines 0) (ex_opts False)
           (ex_after_pass1\<lparr>FIRST_VEG := True\<rparr>))) = Finite (1 / 64) \<and>
   double_greater (ex_routines 0) (Finite 1) (Finite (1 / 64)) \<and>
   \<not> double_greater (ex_routines 0) (Finite (1 / 128)) (Finite (1 / 64)) \<and>
   ex_run 0 False 1 =
     Inl (Exit_failure (Err_time_step 1 (1 / 8) 2 1 (Finite (1 / 64))),
          node_moisture_written (ex_routines 0) (ex_opts False) 0 0
            (node_parameters (ex_routines 0) (ex_opts False)
               (ex_after_pass1\<lparr>FIRST_VEG := True\<rparr>))) \<and>
   pass2_tile_start (ex_routines 0) ex_def \<lparr>dt = 1 / 128\<rparr> (ex_opts False) 0 0
       (ex_after_pass1\<lparr>FIRST_VEG := True\<rparr>) =
     restore ex_def (ex_opts False) 0 0
       (node_moisture_written (ex_routines 0) (ex_opts False) 0 0
          (node_parameters (ex_routines 0) (ex_opts False)
             (ex_after_pass1\<lparr>FIRST_VEG := True\<rparr>)))"
proof -
  let ?u = "node_moisture_written (ex_routines 0) (ex_opts False) 0 0
        (node_parameters (ex_routines 0) (ex_opts False)
           (ex_after_pass1\<lparr>FIRST_VEG := True\<rparr>))"
  have p1: "pass1 (ex_routines 0) ex_def (ex_opts False) ex_veg_con
       (entry_vars ex_cell ex_energy ex_soil_con) = Inr ex_after_pass1"
    unfolding ex_after_pass1_def
    by (rule Inr_final_vars) (simp add: ex_defs run_defs failure_of_def upt_rec Let_def)
  have sel: "selected_tiles (ex_opts False) ex_veg_con ex_soil_con = [] @ (0, 0) # [(0, 1)]"
    by (simp add: ex_defs selected_tiles_def upt_rec)
  have reach: "\<And>gp. for_each [] (\<lambda>(v, b). pass2_tile (ex_routines 0) ex_def gp
       (ex_opts False) v b) (ex_after_pass1\<lparr>FIRST_VEG := True\<rparr>)
         = Inr (ex_after_pass1\<lparr>FIRST_VEG := True\<rparr>)"
    by simp
  have frozen: "FROZEN_SOIL (ex_opts False)" and explicit: "\<not> IMPLICIT (ex_opts False)"
    and full: "\<not> QUICK_FLUX (ex_opts False)"
    by (simp_all add: ex_opts_def)
  have ok: "fst (node_moisture_call (ex_routines 0) (ex_opts False) 0 0
          (node_parameters (ex_routines 0) (ex_opts False)
             (ex_after_pass1\<lparr>FIRST_VEG := True\<rparr>))) \<noteq> ERROR ex_def"
    by (simp add: ex_routines_def ex_def_def node_moisture_call_def)
  have dz: "dz_node (soil_con ex_after_pass1) = (\<lambda>n. 1 / 8)"
    unfolding ex_after_pass1_def
    using pass1_keeps [of "ex_routines 0" ex_def "ex_opts False" ex_veg_con
        "entry_vars ex_cell ex_energy ex_soil_con"]
    by (simp add: entry_vars_def ex_soil_con_def)
  have dzu: "dz_node (soil_con ?u) = (\<lambda>n. 1 / 8)"
    using node_moisture_written_only [of 0 0 "node_parameters (ex_routines 0) (ex_opts False)
           (ex_after_pass1\<lparr>FIRST_VEG := True\<rparr>)" "ex_routines 0" "ex_opts False"] dz
    by (simp add: pass2_only_def node_parameters_frame)
  have Cs: "Cs_node (energy ?u 0 0) = (\<lambda>n. 2)" "kappa_node (energy ?u 0 0) = (\<lambda>n. 1)"
    by (simp_all add: node_moisture_written_def node_moisture_call_def ex_routines_def upd2_def)
  have th: "dt_thresh (ex_routines 0) 0 0 ?u = Finite (1 / 64)"
    unfolding dt_thresh_def dzu Cs
    by (simp add: ex_routines_def ex_times_def ex_divide_def ex_pow_def)
  have gr: "double_greater (ex_routines 0) (Finite 1) (Finite (1 / 64))"
    "\<not> double_greater (ex_routines 0) (Finite (1 / 128)) (Finite (1 / 64))"
    by (simp_all add: ex_routines_def ex_greater_def)
  have big: "double_greater (ex_routines 0) (Finite (dt \<lparr>dt = 1\<rparr>))
      (dt_thresh (ex_routines 0) 0 0 ?u)"
    using gr(1) by (simp add: th)
  have small: "\<not> double_greater (ex_routines 0) (Finite (dt \<lparr>dt = 1 / 128\<rparr>))
      (dt_thresh (ex_routines 0) 0 0 ?u)"
    using gr(2) by (simp add: th)
  note w1 = time_step_check_ends_or_passes [OF p1 sel reach frozen explicit full ok refl,
      where gp = "\<lparr>dt = 1\<rparr>", THEN conjunct1, rule_format, OF big, folded ex_run_def]
  note w2 = time_step_check_ends_or_passes [OF p1 sel reach frozen explicit full ok refl,
      where gp = "\<lparr>dt = 1 / 128\<rparr>", THEN conjunct2, rule_format, OF small, THEN conjunct2]
  have a: "ex_run 0 False 1 =
      Inl (Exit_failure (Err_time_step 1 (1 / 8) 2 1 (Finite (1 / 64))), ?u)"
    using w1 by (simp add: th dzu Cs)
  show ?thesis using p1 sel frozen explicit full ok th gr a w2 by blast
qed

text \<open>
  C8. With quick flux the ice content step of a tile takes from the node temperature
  profile the temperatures of nodes 0 and 1 alone. Two states that agree on these two
  temperatures of the tile, on its layers, and on the layer depths, the damping
  depth, the mean annual soil temperature, the layer moisture maxima, the retention
  parameters, the frost fractions and slope and the frozen-soil flag of the cell give
  the same error flag and the same layers, whatever the other node temperatures (and
  all the rest of the two states) are.
\<close>

theorem quick_flux_first_two_temperatures:
  assumes "QUICK_FLUX opts"
    and "T (energy s v b) 0 = T (energy s' v b) 0"
    and "T (energy s v b) 1 = T (energy s' v b) 1"
    and "layer (cell s v b) = layer (cell s' v b)"
    and "avg_temp (soil_con s) = avg_temp (soil_con s')"
    and "depth (soil_con s) = depth (soil_con s')"
    and "dp (soil_con s) = dp (soil_con s')"
    and "max_moist (soil_con s) = max_moist (soil_con s')"
    and "expt (soil_con s) = expt (soil_con s')"
    and "bubble (soil_con s) = bubble (soil_con s')"
    and "frost_fract (soil_con s) = frost_fract (soil_con s')"
    and "frost_slope (soil_con s) = frost_slope (soil_con s')"
    and "FS_ACTIVE (soil_con s) = FS_ACTIVE (soil_con s')"
  shows "ice_content_call r opts v b s = ice_content_call r opts v b s' \<and>
         layer (cell (final_vars (ice_content r c opts v b s)) v b) =
           layer (cell (final_vars (ice_content r c opts v b s')) v b) \<and>
         failure_of (ice_content r c opts v b s) = failure_of (ice_content r c opts v b s')"
proof -
  have call: "ice_content_call r opts v b s = ice_content_call r opts v b s'"
    using assms by (simp add: ice_content_call_def)
  have lay: "\<And>t. layer (cell (final_vars (ice_content r c opts v b t)) v b) =
      snd (ice_content_call r opts v b t)"
    by (simp add: ice_content_def ice_content_written_def log_err_def final_vars_def upd2_def)
  have fail: "\<And>t. failure_of (ice_content r c opts v b t) =
      (if fst (ice_content_call r opts v b t) = ERROR c
       then Some (Exit_failure (if QUICK_FLUX opts then Err_quick_flux else Err_ice_content))
       else None)"
    by (simp add: ice_content_def log_err_def failure_of_def)
  show ?thesis using call by (simp add: lay fail)
qed

theorem quick_flux_first_two_temperatures_witness:
  "QUICK_FLUX (ex_opts True) \<and>
   T (energy (entry_vars ex_cell ex_energy ex_soil_con) 0 0) 2 = 0 \<and>
   T (energy (entry_vars ex_cell ex_energy_cold ex_soil_con) 0 0) 2 = - 10 \<and>
   ice (layer (cell (final_vars (ice_content (ex_routines 0) ex_def (ex_opts True) 0 0
      (entry_vars ex_cell ex_energy ex_soil_con))) 0 0) 0) 0 = 0 \<and>
   ice (layer (cell (final_vars (ice_content (ex_routines 0) ex_def (ex_opts True) 0 0
      (entry_vars ex_cell ex_energy_cold ex_soil_con))) 0 0) 0) 0 = 0 \<and>
   ice (layer (cell (final_vars (ice_content (ex_routines 0) ex_def (ex_opts False) 0 0
      (entry_vars ex_cell ex_energy ex_soil_con))) 0 0) 0) 0 = 0 \<and>
   ice (layer (cell (final_vars (ice_content (ex_routines 0) ex_def (ex_opts False) 0 0
      (entry_vars ex_cell ex_energy_cold ex_soil_con))) 0 0) 0) 0 = 3"
proof -
  let ?s = "entry_vars ex_cell ex_energy ex_soil_con"
  let ?s' = "entry_vars ex_cell ex_energy_cold ex_soil_con"
  have q: "QUICK_FLUX (ex_opts True)" by (simp add: ex_opts_def)
  have t: "T (energy ?s 0 0) 0 = T (energy ?s' 0 0) 0" "T (energy ?s 0 0) 1 = T (energy ?s' 0 0) 1"
    by (simp_all add: entry_vars_def ex_energy_cold_def ex_energy_def)
  have l: "layer (cell ?s 0 0) = layer (cell ?s' 0 0)" by (simp add: entry_vars_def)
  have sc: "soil_con ?s = soil_con ?s'" by (simp add: entry_vars_def)
  note w = quick_flux_first_two_temperatures [where r = "ex_routines 0" and c = ex_def,
      OF q t l, unfolded sc, OF refl refl refl refl refl refl refl refl refl,
      THEN conjunct2, THEN conjunct1]
  have a: "ice (layer (cell (final_vars (ice_content (ex_routines 0) ex_def (ex_opts True) 0 0
      ?s)) 0 0) 0) 0 = 0"
    by (simp add: ice_content_def ice_content_call_def ice_content_written_def log_err_def
        final_vars_def upd2_def entry_vars_def ex_defs)
  have b: "ice (layer (cell (final_vars (ice_content (ex_routines 0) ex_def (ex_opts True) 0 0
      ?s')) 0 0) 0) 0 = 0"
    using a unfolding w .
  have c: "ice (layer (cell (final_vars (ice_content (ex_routines 0) ex_def (ex_opts False) 0 0
      ?s)) 0 0) 0) 0 = 0"
    by (simp add: ice_content_def ice_content_call_def ice_content_written_def log_err_def
        final_vars_def upd2_def entry_vars_def ex_defs)
  have d: "ice (layer (cell (final_vars (ice_content (ex_routines 0) ex_def (ex_opts False) 0 0
      ?s')) 0 0) 0) 0 = 3"
    by (simp add: ice_content_def ice_content_call_def ice_content_written_def log_err_def
        final_vars_def upd2_def entry_vars_def ex_defs ex_energy_cold_def)
  have e: "T (energy ?s 0 0) 2 = 0" "T (energy ?s' 0 0) 2 = - 10"
    by (simp_all add: entry_vars_def ex_energy_cold_def ex_energy_def)
  show ?thesis using q a b c d e by blast
qed

lemma count_calls_ext:
  assumes "calls_ext s s'"
  shows "length (filter (\<lambda>x. x = Call_set_node_parameters) (calls s')) =
         length (filter (\<lambda>x. x = Call_set_node_parameters) (calls s))"
proof -
  from calls_ext_D [OF assms] obtain ext where
    ext: "calls s' = calls s @ ext" "Call_set_node_parameters \<notin> set ext" by blast
  have "filter (\<lambda>x. x = Call_set_node_parameters) ext = []"
    using ext(2) by (simp add: filter_empty_conv) blast
  then show ?thesis using ext(1) by simp
qed

lemma take_calls_ext:
  assumes "calls_ext s s'"
  shows "take (length (calls s)) (calls s') = calls s"
  using assms by (simp add: calls_ext_def)

text \<open>
  C3. In a run that stays inside the local arrays, \<^verbatim>\<open>set_node_parameters\<close> is called once if
  some tile passes the guards and not at all if none does. The call is the first of the
  second pass, so it is made for whichever tile that pass comes to first, before
  anything else is done for it; the soil structure at the end of the run is the one
  on entry with the result of this one call, and a tile that is processed with the
  flag down leaves the soil structure and the flag as they are.
\<close>

theorem node_parameters_once:
  assumes fit: "\<forall>t\<in>set (selected_tiles opts veg_con soil). in_extents c opts (fst t) (snd t)"
  shows "length (filter (\<lambda>x. x = Call_set_node_parameters)
           (calls (final_vars
              (compute_derived_state_vars r c gp opts cells energies soil veg_con)))) =
           (if selected_tiles opts veg_con soil = [] then 0 else 1) \<and>
         soil_con (final_vars
             (compute_derived_state_vars r c gp opts cells energies soil veg_con)) =
           (if selected_tiles opts veg_con soil = [] then soil
            else node_parameters_call r opts soil) \<and>
         (selected_tiles opts veg_con soil \<noteq> [] \<longrightarrow>
            take (Suc (length (calls (final_vars
                    (pass1 r c opts veg_con (entry_vars cells energies soil))))))
              (calls (final_vars
                 (compute_derived_state_vars r c gp opts cells energies soil veg_con))) =
            calls (final_vars (pass1 r c opts veg_con (entry_vars cells energies soil))) @
              [Call_set_node_parameters]) \<and>
         (\<forall>v b s. \<not> FIRST_VEG s \<longrightarrow>
            soil_con (final_vars (pass2_tile r c gp opts v b s)) = soil_con s \<and>
            \<not> FIRST_VEG (final_vars (pass2_tile r c gp opts v b s)))"
proof -
  let ?ts = "selected_tiles opts veg_con soil"
  let ?s0 = "entry_vars cells energies soil"
  let ?out = "compute_derived_state_vars r c gp opts cells energies soil veg_con"
  let ?count = "\<lambda>s. length (filter (\<lambda>x. x = Call_set_node_parameters) (calls s))"
  have e0: "soil_con ?s0 = soil" "calls ?s0 = []" by (simp_all add: entry_vars_def)
  obtain s1 where p1: "pass1 r c opts veg_con ?s0 = Inr s1"
  proof (cases "pass1 r c opts veg_con ?s0")
    case (Inl e)
    then have False
      using pass1_failure [where r = r and c = c and opts = opts and veg_con = veg_con
          and s = ?s0] fit e0
      by simp
    then show ?thesis ..
  next
    case (Inr s1)
    then show ?thesis using that by blast
  qed
  have f1: "final_vars (pass1 r c opts veg_con ?s0) = s1" using p1 by (simp add: final_vars_def)
  have sc1: "soil_con s1 = soil" using pass1_Inr_keeps(1) [OF p1] e0 by simp
  have c1: "?count s1 = 0" using count_calls_ext [OF pass1_Inr_keeps(3) [OF p1]] e0 by simp
  let ?s1 = "s1\<lparr>FIRST_VEG := True\<rparr>"
  have out: "?out = for_each ?ts (\<lambda>(v, b). pass2_tile r c gp opts v b) ?s1"
    using p1 by (simp add: compute_derived_state_vars_def pass2_tiles sc1)
  have later: "\<forall>v b s. \<not> FIRST_VEG s \<longrightarrow>
            soil_con (final_vars (pass2_tile r c gp opts v b s)) = soil_con s \<and>
            \<not> FIRST_VEG (final_vars (pass2_tile r c gp opts v b s))"
    using pass2_tile_later(1,2) by simp
  show ?thesis
  proof (cases "?ts = []")
    case True
    then have "final_vars ?out = ?s1" using out by (simp add: final_vars_def)
    then show ?thesis using True c1 sc1 later by simp
  next
    case False
    let ?N = "node_parameters r opts ?s1"
    have first: "FIRST_VEG ?s1" by simp
    note a = pass2_tiles_first [OF first False, of r c gp opts, folded out]
    have N: "calls ?N = calls s1 @ [Call_set_node_parameters]"
      using node_parameters_first(1) [OF first, of r opts] by simp
    have "?count (final_vars ?out) = ?count ?N"
      using a by (simp add: count_calls_ext)
    then have cnt: "?count (final_vars ?out) = 1" using N c1 by simp
    have "take (length (calls ?N)) (calls (final_vars ?out)) = calls ?N"
      using a by (simp add: take_calls_ext)
    then have tk: "take (Suc (length (calls s1))) (calls (final_vars ?out)) =
        calls s1 @ [Call_set_node_parameters]"
      using N by simp
    have "soil_con (final_vars ?out) = node_parameters_call r opts soil"
      using a sc1 by simp
    then show ?thesis using False cnt tk f1 later by simp
  qed
qed

theorem node_parameters_once_witness:
  "in_extents ex_def (ex_opts False) 0 0 \<and> in_extents ex_def (ex_opts False) 0 1 \<and>
   selected_tiles (ex_opts False) ex_veg_con ex_soil_con = [(0, 0), (0, 1)] \<and>
   length (filter (\<lambda>x. x = Call_set_node_parameters)
     (calls (final_vars (ex_run 0 False (1 / 128))))) = 1 \<and>
   Zsum_node (soil_con (final_vars (ex_run 0 False (1 / 128)))) 0 = 1 \<and>
   Zsum_node ex_soil_con 0 = 0 \<and>
   calls (final_vars (ex_run 0 False (1 / 128))) =
     [Call_compute_runoff_and_asat 0 0, Call_wrap_compute_zwt 0 0,
      Call_compute_runoff_and_asat 0 1, Call_wrap_compute_zwt 0 1,
      Call_set_node_parameters,
      Call_distribute_node_moisture_properties 0 0, Call_estimate_layer_ice_content 0 0,
      Call_find_0_degree_fronts 0 0,
      Call_distribute_node_moisture_properties 0 1, Call_estimate_layer_ice_content 0 1,
      Call_find_0_degree_fronts 0 1]"
proof -
  have sel: "selected_tiles (ex_opts False) ex_veg_con ex_soil_con = [(0, 0), (0, 1)]"
    by (simp add: ex_defs selected_tiles_def upt_rec)
  have fit: "\<forall>t\<in>set (selected_tiles (ex_opts False) ex_veg_con ex_soil_con).
      in_extents ex_def (ex_opts False) (fst t) (snd t)"
    unfolding sel by (simp add: in_extents_def ex_def_def ex_opts_def)
  note w = node_parameters_once [OF fit, of "ex_routines 0" "\<lparr>dt = 1 / 128\<rparr>" ex_cell ex_energy,
      folded ex_run_def]
  have cnt: "length (filter (\<lambda>x. x = Call_set_node_parameters)
     (calls (final_vars (ex_run 0 False (1 / 128))))) = 1"
    using w [THEN conjunct1] by (simp add: sel)
  have "soil_con (final_vars (ex_run 0 False (1 / 128))) =
      node_parameters_call (ex_routines 0) (ex_opts False) ex_soil_con"
    using w [THEN conjunct2, THEN conjunct1] by (simp add: sel)
  then have z: "Zsum_node (soil_con (final_vars (ex_run 0 False (1 / 128)))) 0 = 1"
    by (simp add: node_parameters_call_def ex_routines_def)
  have z0: "Zsum_node ex_soil_con 0 = 0" by (simp add: ex_soil_con_def)
  have tr: "calls (final_vars (ex_run 0 False (1 / 128))) =
     [Call_compute_runoff_and_asat 0 0, Call_wrap_compute_zwt 0 0,
      Call_compute_runoff_and_asat 0 1, Call_wrap_compute_zwt 0 1,
      Call_set_node_parameters,
      Call_distribute_node_moisture_properties 0 0, Call_estimate_layer_ice_content 0 0,
      Call_find_0_degree_fronts 0 0,
      Call_distribute_node_moisture_properties 0 1, Call_estimate_layer_ice_content 0 1,
      Call_find_0_degree_fronts 0 1]"
    by (simp add: ex_defs run_defs final_vars_def upt_rec Let_def power2_eq_square)
  have "in_extents ex_def (ex_opts False) 0 0" "in_extents ex_def (ex_opts False) 0 1"
    by (simp_all add: in_extents_def ex_def_def ex_opts_def)
  then show ?thesis using sel cnt z z0 tr by blast
qed

end
